theory Spec2Isabelle
  imports Main
begin

section \<open>UTR\_Maker: the data model of \<^verbatim>\<open>src/utr-maker.py\<close>\<close>

text \<open>
  The program reads the first record of a GenBank file with Biopython and keeps three
  things of it (\<^verbatim>\<open>__init__\<close>, lines 8--12): the record (of which only the
  identifier is read later), the sequence as a string, and the feature list.

  Feature types, qualifier keys, identifiers, file names and the sequence are only compared,
  concatenated and sliced: they are \<^typ>\<open>string\<close>, one \<^typ>\<open>char\<close> per character.
  Qualifier values are free text on which the program runs Unicode operations; they are
  lists of code points (see below). Coordinates are Python integers, hence \<^typ>\<open>int\<close>.
\<close>

subsection \<open>Exceptions\<close>

text \<open>
  The two exceptions the methods can raise: \<^verbatim>\<open>IndexError\<close> from
  \<^verbatim>\<open>feature.qualifiers["note"][0]\<close> on an empty list of values, and
  \<^verbatim>\<open>AttributeError\<close> from reading \<^verbatim>\<open>start\<close> of a location that is
  \<^verbatim>\<open>None\<close>. A method that can raise returns \<open>Inl\<close> of the exception or \<open>Inr\<close> of
  its value.
\<close>

datatype error = IndexError | AttributeError

subsection \<open>Locations\<close>

text \<open>
  A feature location of Biopython is a simple location with a \<^verbatim>\<open>start\<close> and an
  \<^verbatim>\<open>end\<close>, or a compound location, whose constructor refuses fewer than two parts.
  A part is a simple location; only its \<^verbatim>\<open>start\<close> and \<^verbatim>\<open>end\<close> are read
  by the program, so a part is the pair of them. The compound constructor carries its first
  two parts and the list of the remaining ones, in the order the parser gives them.
\<close>

type_synonym part = "int \<times> int"

datatype location = Simple int int | Compound part part "part list"

text \<open>
  The attribute \<^verbatim>\<open>parts\<close>: the parts of a compound location; for a simple location,
  in the Biopython versions that define the attribute there, the one-element list of the
  location itself.
\<close>

fun parts :: "location \<Rightarrow> part list" where
  "parts (Simple s e) = [(s, e)]"
| "parts (Compound p q ps) = p # q # ps"

text \<open>
  \<^verbatim>\<open>min(xs)\<close> and \<^verbatim>\<open>max(xs)\<close> of Python on a non-empty list, given as its head
  and tail: one pass that keeps the first extreme element seen.
\<close>

definition py_min :: "int \<Rightarrow> int list \<Rightarrow> int" where
  "py_min x xs = fold (\<lambda>y m. if y < m then y else m) xs x"

definition py_max :: "int \<Rightarrow> int list \<Rightarrow> int" where
  "py_max x xs = fold (\<lambda>y m. if m < y then y else m) xs x"

text \<open>
  The attributes \<^verbatim>\<open>start\<close> and \<^verbatim>\<open>end\<close>: of a compound location, Biopython
  gives the least start and the greatest end of its parts.
\<close>

fun location_start :: "location \<Rightarrow> int" where
  "location_start (Simple s e) = s"
| "location_start (Compound p q ps) = py_min (fst p) (map fst (q # ps))"

fun location_end :: "location \<Rightarrow> int" where
  "location_end (Simple s e) = e"
| "location_end (Compound p q ps) = py_max (snd p) (map snd (q # ps))"

text \<open>
  \<^verbatim>\<open>hasattr(location, 'parts')\<close> on a location object. A compound location always
  has the attribute. Whether a simple location has it depends on the Biopython version
  installed, which the program does not fix: the flag \<open>sp\<close> (``simple locations have
  parts'') is a parameter of every function that reaches this test.
\<close>

fun hasattr_parts :: "bool \<Rightarrow> location \<Rightarrow> bool" where
  "hasattr_parts sp (Simple s e) = sp"
| "hasattr_parts sp (Compound p q ps) = True"

subsection \<open>Text\<close>

text \<open>
  A Python \<^verbatim>\<open>str\<close> is a sequence of Unicode code points. \<open>ascii\<close> turns a literal
  of the source into its code points.
\<close>

type_synonym codepoint = nat

type_synonym pystr = "codepoint list"

definition ascii :: "string \<Rightarrow> pystr" where
  "ascii s = map of_char s"

text \<open>
  \<^verbatim>\<open>str.lower\<close> and the class \<^verbatim>\<open>\d\<close> of \<^verbatim>\<open>re\<close> are read from the
  Unicode tables of the Python that runs the program: \<^verbatim>\<open>lower\<close> may change the
  length of a string, and \<^verbatim>\<open>\d\<close> holds every decimal digit of every script. The
  tables are a parameter \<open>U\<close> of the functions that use them.
\<close>

record unicode =
  str_lower :: "pystr \<Rightarrow> pystr"
  re_digit :: "codepoint \<Rightarrow> bool"

text \<open>
  What is known of every such table on ASCII text: the letters \<open>A\<close> to \<open>Z\<close> (65 to 90)
  move to \<open>a\<close> to \<open>z\<close> and every other ASCII character stays; the ASCII digits are \<open>0\<close>
  to \<open>9\<close> (48 to 57).
\<close>

definition ascii_lower :: "codepoint \<Rightarrow> codepoint" where
  "ascii_lower c = (if 65 \<le> c \<and> c \<le> 90 then c + 32 else c)"

definition ascii_digit :: "codepoint \<Rightarrow> bool" where
  "ascii_digit c = (48 \<le> c \<and> c \<le> 57)"

definition ascii_faithful :: "unicode \<Rightarrow> bool" where
  "ascii_faithful U =
     ((\<forall>s. (\<forall>c\<in>set s. c < 128) \<longrightarrow> str_lower U s = map ascii_lower s) \<and>
      (\<forall>c. c < 128 \<longrightarrow> re_digit U c = ascii_digit c))"

text \<open>
  Two tables to run the functions on: one that knows ASCII only, and one that also knows
  the Arabic-Indic digits U+0660 to U+0669 (1632 to 1641).
\<close>

definition ascii_tables :: unicode where
  "ascii_tables = \<lparr> str_lower = map ascii_lower, re_digit = ascii_digit \<rparr>"

definition arabic_tables :: unicode where
  "arabic_tables =
     \<lparr> str_lower = map ascii_lower,
       re_digit = (\<lambda>c. ascii_digit c \<or> (1632 \<le> c \<and> c \<le> 1641)) \<rparr>"

subsection \<open>Features, records and the object\<close>

text \<open>
  A feature: its type tag, its location and its qualifiers, a dictionary from a key to a
  list of values. The parser leaves \<^verbatim>\<open>feature.location\<close> at \<^verbatim>\<open>None\<close> when
  it cannot read the location of the file.
\<close>

record feature =
  type :: string
  location :: "location option"
  qualifiers :: "string \<rightharpoonup> pystr list"

text \<open>The three fields of a \<^verbatim>\<open>SeqRecord\<close> that the program sets.\<close>

record SeqRecord =
  seq :: string
  id_rec :: string
  description :: string

text \<open>
  The object: \<open>record_id\<close> is \<^verbatim>\<open>self.record.id\<close>, \<open>sequence\<close> is
  \<^verbatim>\<open>self.sequence\<close>, \<open>features\<close> is \<^verbatim>\<open>self.features\<close>.
\<close>

record UTRMaker =
  record_id :: string
  sequence :: string
  features :: "feature list"

subsection \<open>Python slicing\<close>

text \<open>
  \<^verbatim>\<open>s[i:j]\<close> with step 1, either bound optional: a negative bound counts from the
  end, and both bounds are clamped to the range of the string. Slicing never raises.
\<close>

definition adjust_index :: "int \<Rightarrow> int \<Rightarrow> int" where
  "adjust_index n i = (if i < 0 then max (i + n) 0 else min i n)"

definition py_slice :: "'a list \<Rightarrow> int option \<Rightarrow> int option \<Rightarrow> 'a list" where
  "py_slice s i j =
     (let n = int (length s);
          start = (case i of None \<Rightarrow> 0 | Some a \<Rightarrow> adjust_index n a);
          stop = (case j of None \<Rightarrow> n | Some b \<Rightarrow> adjust_index n b)
      in take (nat (stop - start)) (drop (nat start) s))"

section \<open>\<^verbatim>\<open>find_coding_boundaries\<close> (lines 35--52)\<close>

text \<open>
  Lines 44--45, the branch taken when the location has parts: the start of the first part
  and the end of the last one. Lines 47--48, the other branch: the location's own start
  and end.
\<close>

definition bounds_via_parts :: "location \<Rightarrow> int \<times> int" where
  "bounds_via_parts loc = (fst (hd (parts loc)), snd (last (parts loc)))"

definition bounds_direct :: "location \<Rightarrow> int \<times> int" where
  "bounds_direct loc = (location_start loc, location_end loc)"

text \<open>
  The loop of lines 40--48, with the two lists it appends to as its state. A feature that
  is not a CDS leaves both lists as they are. On a CDS feature whose location is
  \<^verbatim>\<open>None\<close> the test of line 43 is false (\<^verbatim>\<open>None\<close> has no attribute
  \<^verbatim>\<open>parts\<close>) and line 47 raises \<^verbatim>\<open>AttributeError\<close>, which ends the loop.
\<close>

fun coding_loop ::
  "bool \<Rightarrow> feature list \<Rightarrow> int list \<times> int list \<Rightarrow> error + int list \<times> int list" where
  "coding_loop sp [] (starts, stops) = Inr (starts, stops)"
| "coding_loop sp (f # fs) (starts, stops) =
     (if type f = ''CDS'' then
        (case location f of
           None \<Rightarrow> Inl AttributeError
         | Some loc \<Rightarrow>
             (if hasattr_parts sp loc then
                coding_loop sp fs
                  (starts @ [fst (bounds_via_parts loc)], stops @ [snd (bounds_via_parts loc)])
              else
                coding_loop sp fs
                  (starts @ [fst (bounds_direct loc)], stops @ [snd (bounds_direct loc)])))
      else coding_loop sp fs (starts, stops))"

text \<open>
  Lines 50--52: both lists non-empty gives the least start and the greatest stop,
  anything else gives \<^verbatim>\<open>(None, None)\<close>.
\<close>

definition find_coding_boundaries :: "bool \<Rightarrow> UTRMaker \<Rightarrow> error + int option \<times> int option" where
  "find_coding_boundaries sp self =
     (case coding_loop sp (features self) ([], []) of
        Inl e \<Rightarrow> Inl e
      | Inr (s # starts, t # stops) \<Rightarrow> Inr (Some (py_min s starts), Some (py_max t stops))
      | Inr _ \<Rightarrow> Inr (None, None))"

section \<open>The two extractors (lines 54--84)\<close>

definition extract_5prime_utr :: "bool \<Rightarrow> UTRMaker \<Rightarrow> error + SeqRecord option" where
  "extract_5prime_utr sp self =
     (case find_coding_boundaries sp self of
        Inl e \<Rightarrow> Inl e
      | Inr (None, _) \<Rightarrow> Inr None
      | Inr (Some first_coding_start, _) \<Rightarrow>
          Inr (Some \<lparr> seq = py_slice (sequence self) None (Some first_coding_start),
                      id_rec = record_id self @ ''_5UTR'',
                      description = ''5' UTR from '' @ record_id self \<rparr>))"

definition extract_3prime_utr :: "bool \<Rightarrow> UTRMaker \<Rightarrow> error + SeqRecord option" where
  "extract_3prime_utr sp self =
     (case find_coding_boundaries sp self of
        Inl e \<Rightarrow> Inl e
      | Inr (_, None) \<Rightarrow> Inr None
      | Inr (_, Some last_coding_stop) \<Rightarrow>
          Inr (Some \<lparr> seq = py_slice (sequence self) (Some last_coding_stop) None,
                      id_rec = record_id self @ ''_3UTR'',
                      description = ''3' UTR from '' @ record_id self \<rparr>))"

section \<open>\<^verbatim>\<open>save_utrs\<close> (lines 86--98)\<close>

text \<open>
  \<^verbatim>\<open>if utr5:\<close> tests the truth value of \<^verbatim>\<open>None\<close> or of a \<^verbatim>\<open>SeqRecord\<close>.
  \<^verbatim>\<open>None\<close> is false. Biopython's \<^verbatim>\<open>SeqRecord\<close> defines
  \<^verbatim>\<open>__bool__\<close>, which returns \<^verbatim>\<open>True\<close> for every record; the length of
  the sequence, which \<^verbatim>\<open>__len__\<close> gives, plays no part in the test.
\<close>

definition SeqRecord_bool :: "SeqRecord \<Rightarrow> bool" where
  "SeqRecord_bool r = True"

definition truthy :: "SeqRecord option \<Rightarrow> bool" where
  "truthy r = (case r of None \<Rightarrow> False | Some u \<Rightarrow> SeqRecord_bool u)"

text \<open>
  The effect of \<^verbatim>\<open>save_utrs\<close> is the files it writes: the result is the list of
  the writes it performs, in order, each one the path opened and the record handed to
  \<^verbatim>\<open>SeqIO.write\<close>, and the exception that ended it, if one did.
\<close>

type_synonym file_write = "string \<times> SeqRecord"

definition save_utrs :: "bool \<Rightarrow> UTRMaker \<Rightarrow> string \<Rightarrow> file_write list \<times> error option" where
  "save_utrs sp self output_prefix =
     (case extract_5prime_utr sp self of
        Inl e \<Rightarrow> ([], Some e)
      | Inr utr5 \<Rightarrow>
          (let written5 =
                 (case utr5 of
                    None \<Rightarrow> []
                  | Some u \<Rightarrow> if truthy utr5 then [(output_prefix @ ''_5UTR.fasta'', u)] else [])
           in case extract_3prime_utr sp self of
                Inl e \<Rightarrow> (written5, Some e)
              | Inr utr3 \<Rightarrow>
                  (written5 @
                     (case utr3 of
                        None \<Rightarrow> []
                      | Some u \<Rightarrow>
                          if truthy utr3 then [(output_prefix @ ''_3UTR.fasta'', u)] else []),
                   None)))"

section \<open>\<^verbatim>\<open>find_segment_boundaries\<close> (lines 14--33)\<close>

text \<open>\<^verbatim>\<open>sub in s\<close> on strings: \<open>sub\<close> occurs at some position of \<open>s\<close>.\<close>

fun str_contains :: "'a list \<Rightarrow> 'a list \<Rightarrow> bool" where
  "str_contains sub [] = (sub = [])"
| "str_contains sub (c # cs) = (take (length sub) (c # cs) = sub \<or> str_contains sub cs)"

text \<open>
  \<^verbatim>\<open>re.search(lit + r"(\d+)", s)\<close> for a literal \<open>lit\<close>, giving
  \<^verbatim>\<open>group(1)\<close> of the match or \<open>None\<close>: the positions of \<open>s\<close> are tried from
  the left; a position matches when \<open>lit\<close> stands there followed by at least one digit,
  and the group is the longest run of digits there (\<^verbatim>\<open>+\<close> is greedy and nothing
  follows it in the pattern). \<open>digit\<close> is the class \<^verbatim>\<open>\d\<close>.
\<close>

fun re_search_digits :: "('a \<Rightarrow> bool) \<Rightarrow> 'a list \<Rightarrow> 'a list \<Rightarrow> 'a list option" where
  "re_search_digits digit lit [] = None"
| "re_search_digits digit lit (c # cs) =
     (if take (length lit) (c # cs) = lit \<and> takeWhile digit (drop (length lit) (c # cs)) \<noteq> []
      then Some (takeWhile digit (drop (length lit) (c # cs)))
      else re_search_digits digit lit cs)"

text \<open>
  The result dictionary, from a segment identifier to the list of its ranges. Lines 29--31:
  a key not yet present starts with the empty list, then the range is appended.
\<close>

type_synonym segments = "pystr \<rightharpoonup> (int \<times> int) list"

definition append_range :: "segments \<Rightarrow> pystr \<Rightarrow> int \<times> int \<Rightarrow> segments" where
  "append_range segs segment_id r =
     segs(segment_id \<mapsto> (case segs segment_id of None \<Rightarrow> [] | Some rs \<Rightarrow> rs) @ [r])"

text \<open>
  The loop of lines 18--31. Line 21 raises \<^verbatim>\<open>IndexError\<close> on an empty list of
  values; lines 25--26 raise \<^verbatim>\<open>AttributeError\<close> when the note has matched and the
  location is \<^verbatim>\<open>None\<close>. Either ends the loop.
\<close>

fun segment_loop :: "unicode \<Rightarrow> feature list \<Rightarrow> segments \<Rightarrow> error + segments" where
  "segment_loop U [] segs = Inr segs"
| "segment_loop U (f # fs) segs =
     (if type f = ''misc_feature'' then
        (case qualifiers f ''note'' of
           None \<Rightarrow> segment_loop U fs segs
         | Some [] \<Rightarrow> Inl IndexError
         | Some (note # _) \<Rightarrow>
             (if str_contains (ascii ''locus segment'') (str_lower U note) then
                (case re_search_digits (re_digit U) (ascii ''locus segment '') (str_lower U note) of
                   None \<Rightarrow> segment_loop U fs segs
                 | Some group1 \<Rightarrow>
                     (case location f of
                        None \<Rightarrow> Inl AttributeError
                      | Some loc \<Rightarrow>
                          segment_loop U fs
                            (append_range segs (ascii ''segment_'' @ group1)
                               (location_start loc, location_end loc))))
              else segment_loop U fs segs))
      else segment_loop U fs segs)"

definition find_segment_boundaries :: "unicode \<Rightarrow> UTRMaker \<Rightarrow> error + segments" where
  "find_segment_boundaries U self = segment_loop U (features self) Map.empty"

section \<open>\<^verbatim>\<open>get_utr_details\<close> (lines 100--110)\<close>

record utr_details =
  utr5_length :: nat
  utr3_length :: nat
  segments :: segments

text \<open>\<^verbatim>\<open>len(utr.seq) if utr else 0\<close>.\<close>

definition seq_length_or_0 :: "SeqRecord option \<Rightarrow> nat" where
  "seq_length_or_0 utr =
     (case utr of None \<Rightarrow> 0 | Some u \<Rightarrow> if truthy utr then length (seq u) else 0)"

text \<open>Lines 102--104 run in this order; the first exception ends the method.\<close>

definition get_utr_details :: "unicode \<Rightarrow> bool \<Rightarrow> UTRMaker \<Rightarrow> error + utr_details" where
  "get_utr_details U sp self =
     (case extract_5prime_utr sp self of
        Inl e \<Rightarrow> Inl e
      | Inr utr5 \<Rightarrow>
          (case extract_3prime_utr sp self of
             Inl e \<Rightarrow> Inl e
           | Inr utr3 \<Rightarrow>
               (case find_segment_boundaries U self of
                  Inl e \<Rightarrow> Inl e
                | Inr segs \<Rightarrow>
                    Inr \<lparr> utr5_length = seq_length_or_0 utr5,
                          utr3_length = seq_length_or_0 utr3,
                          segments = segs \<rparr>)))"

section \<open>The specification's notions\<close>

text \<open>
  What a coding feature contributes to the envelope, in the specification's words: for a
  compound location the start of the first sub-range and the end of the last sub-range,
  for a simple location its own start and end.
\<close>

fun contribution :: "location \<Rightarrow> int \<times> int" where
  "contribution (Simple s e) = (s, e)"
| "contribution (Compound p q ps) = (fst p, snd (last (q # ps)))"

definition coding_features :: "feature list \<Rightarrow> feature list" where
  "coding_features fs = filter (\<lambda>f. type f = ''CDS'') fs"

text \<open>A CDS feature whose location the parser could not read.\<close>

definition unlocated_cds :: "feature \<Rightarrow> bool" where
  "unlocated_cds f = (type f = ''CDS'' \<and> location f = None)"

text \<open>
  The starts and the ends contributed by the coding features of a list that have a
  location, in scan order.
\<close>

definition contributed_starts :: "feature list \<Rightarrow> int list" where
  "contributed_starts fs =
     List.map_filter (\<lambda>f. map_option (\<lambda>loc. fst (contribution loc)) (location f))
       (coding_features fs)"

definition contributed_ends :: "feature list \<Rightarrow> int list" where
  "contributed_ends fs =
     List.map_filter (\<lambda>f. map_option (\<lambda>loc. snd (contribution loc)) (location f))
       (coding_features fs)"

text \<open>
  The pattern, declaratively: \<open>s\<close> holds the literal followed by the non-empty digit
  string \<open>d\<close>.
\<close>

definition occurs_with_digits :: "('a \<Rightarrow> bool) \<Rightarrow> 'a list \<Rightarrow> 'a list \<Rightarrow> 'a list \<Rightarrow> bool" where
  "occurs_with_digits digit lit s d =
     (\<exists>pre post. s = pre @ lit @ d @ post \<and> d \<noteq> [] \<and> list_all digit d)"

text \<open>
  The first match, declaratively: \<open>lit\<close> stands in \<open>s\<close> after \<open>pre\<close>, \<open>d\<close> is the
  longest run of digits behind it, \<open>d\<close> is not empty, and no occurrence of \<open>lit\<close> that
  starts further left has a digit behind it.
\<close>

definition leftmost_match :: "('a \<Rightarrow> bool) \<Rightarrow> 'a list \<Rightarrow> 'a list \<Rightarrow> 'a list \<Rightarrow> bool" where
  "leftmost_match digit lit s d =
     (\<exists>pre rest. s = pre @ lit @ rest \<and> d = takeWhile digit rest \<and> d \<noteq> [] \<and>
        (\<forall>pre' rest'. s = pre' @ lit @ rest' \<and> length pre' < length pre \<longrightarrow>
           takeWhile digit rest' = []))"

text \<open>
  The segment identifier of a feature, in the specification's words: a \<open>misc_feature\<close>
  whose first \<open>note\<close> value, in lower case, holds \<open>locus segment\<close>, a space and an
  integer is mapped to \<open>segment_\<close> followed by that integer.
\<close>

definition first_note :: "feature \<Rightarrow> pystr option" where
  "first_note f =
     (if type f = ''misc_feature'' then
        (case qualifiers f ''note'' of Some (note # _) \<Rightarrow> Some note | _ \<Rightarrow> None)
      else None)"

definition segment_id :: "unicode \<Rightarrow> feature \<Rightarrow> pystr option" where
  "segment_id U f =
     (case first_note f of
        None \<Rightarrow> None
      | Some note \<Rightarrow>
          map_option (\<lambda>d. ascii ''segment_'' @ d)
            (re_search_digits (re_digit U) (ascii ''locus segment '') (str_lower U note)))"

text \<open>The (start, end) of a feature that has a location.\<close>

definition feature_range :: "feature \<Rightarrow> (int \<times> int) option" where
  "feature_range f = map_option (\<lambda>loc. (location_start loc, location_end loc)) (location f)"

definition ranges_of :: "unicode \<Rightarrow> feature list \<Rightarrow> pystr \<Rightarrow> (int \<times> int) list" where
  "ranges_of U fs k = List.map_filter feature_range (filter (\<lambda>f. segment_id U f = Some k) fs)"

definition segments_of :: "unicode \<Rightarrow> feature list \<Rightarrow> segments" where
  "segments_of U fs = (\<lambda>k. if ranges_of U fs k = [] then None else Some (ranges_of U fs k))"

text \<open>
  The dictionary \<open>segs\<close> after the ranges of the features \<open>fs\<close> have been appended to it
  under their segment identifiers.
\<close>

definition extend :: "unicode \<Rightarrow> segments \<Rightarrow> feature list \<Rightarrow> segments" where
  "extend U segs fs =
     (\<lambda>k. if segs k = None \<and> ranges_of U fs k = [] then None
          else Some ((case segs k of None \<Rightarrow> [] | Some rs \<Rightarrow> rs) @ ranges_of U fs k))"

text \<open>
  The two features on which \<^verbatim>\<open>find_segment_boundaries\<close> raises: a \<open>misc_feature\<close>
  whose \<open>note\<close> qualifier is present with no value, and a feature that has a segment
  identifier and no location. \<open>first_fault\<close> is the exception of the first such feature
  in scan order.
\<close>

definition empty_note :: "feature \<Rightarrow> bool" where
  "empty_note f = (type f = ''misc_feature'' \<and> qualifiers f ''note'' = Some [])"

definition unlocated_segment :: "unicode \<Rightarrow> feature \<Rightarrow> bool" where
  "unlocated_segment U f = (segment_id U f \<noteq> None \<and> location f = None)"

definition feature_fault :: "unicode \<Rightarrow> feature \<Rightarrow> error option" where
  "feature_fault U f =
     (if empty_note f then Some IndexError
      else if unlocated_segment U f then Some AttributeError
      else None)"

fun first_fault :: "unicode \<Rightarrow> feature list \<Rightarrow> error option" where
  "first_fault U [] = None"
| "first_fault U (f # fs) =
     (case feature_fault U f of Some e \<Rightarrow> Some e | None \<Rightarrow> first_fault U fs)"

section \<open>Basic facts\<close>

subsection \<open>The loop of \<^verbatim>\<open>find_coding_boundaries\<close>\<close>

text \<open>
  A location always has a first and a last part, so \<open>hd\<close> and \<open>last\<close> in
  \<open>bounds_via_parts\<close> read a non-empty list. The loop raises exactly when some CDS
  feature has no location; otherwise, whichever branch a CDS feature takes, it appends
  the contribution of the feature. Python's \<^verbatim>\<open>min\<close> and \<^verbatim>\<open>max\<close> give the
  least and the greatest element of a list.
\<close>

lemma parts_nonempty: "parts loc \<noteq> []"
  by (cases loc) simp_all

lemma bounds_via_parts_contribution: "bounds_via_parts loc = contribution loc"
  by (cases loc) (simp_all add: bounds_via_parts_def)

lemma bounds_direct_contribution:
  "\<not> hasattr_parts sp loc \<Longrightarrow> bounds_direct loc = contribution loc"
  by (cases loc) (simp_all add: bounds_direct_def)

lemma contributed_Nil: "contributed_starts [] = []" "contributed_ends [] = []"
  by (simp_all add: contributed_starts_def contributed_ends_def coding_features_def)

lemma contributed_Cons_other:
  "type f \<noteq> ''CDS'' \<Longrightarrow> contributed_starts (f # fs) = contributed_starts fs"
  "type f \<noteq> ''CDS'' \<Longrightarrow> contributed_ends (f # fs) = contributed_ends fs"
  by (simp_all add: contributed_starts_def contributed_ends_def coding_features_def)

lemma contributed_Cons_cds:
  "type f = ''CDS'' \<Longrightarrow> location f = Some loc \<Longrightarrow>
   contributed_starts (f # fs) = fst (contribution loc) # contributed_starts fs"
  "type f = ''CDS'' \<Longrightarrow> location f = Some loc \<Longrightarrow>
   contributed_ends (f # fs) = snd (contribution loc) # contributed_ends fs"
  by (simp_all add: contributed_starts_def contributed_ends_def coding_features_def)

lemma coding_loop_collects:
  "coding_loop sp fs (starts, stops) =
     (if \<exists>f\<in>set fs. unlocated_cds f then Inl AttributeError
      else Inr (starts @ contributed_starts fs, stops @ contributed_ends fs))"
proof (induction fs arbitrary: starts stops)
  case Nil
  show ?case by (simp add: contributed_Nil)
next
  case (Cons f fs)
  show ?case
  proof (cases "type f = ''CDS''")
    case False
    then show ?thesis
      by (simp add: Cons.IH contributed_Cons_other unlocated_cds_def)
  next
    case cds: True
    show ?thesis
    proof (cases "location f")
      case None
      with cds show ?thesis by (simp add: unlocated_cds_def)
    next
      case (Some loc)
      have "\<not> unlocated_cds f" using Some by (simp add: unlocated_cds_def)
      with cds Some show ?thesis
        by (simp add: Cons.IH contributed_Cons_cds bounds_via_parts_contribution
            bounds_direct_contribution)
    qed
  qed
qed

lemma coding_loop_from_empty:
  "coding_loop sp fs ([], []) =
     (if \<exists>f\<in>set fs. unlocated_cds f then Inl AttributeError
      else Inr (contributed_starts fs, contributed_ends fs))"
  by (simp add: coding_loop_collects)

lemma coding_loop_returns:
  "coding_loop sp fs ([], []) = Inr (ss, es) \<Longrightarrow>
   (\<forall>f\<in>set fs. \<not> unlocated_cds f) \<and> ss = contributed_starts fs \<and> es = contributed_ends fs"
  by (simp add: coding_loop_from_empty split: if_splits)

lemma py_min_fold: "py_min x xs = fold min xs x"
proof -
  have "(\<lambda>y m. if y < m then y else m) = (min :: int \<Rightarrow> int \<Rightarrow> int)"
    by (intro ext) (simp add: min_def)
  then show ?thesis by (simp add: py_min_def)
qed

lemma py_max_fold: "py_max x xs = fold max xs x"
proof -
  have "(\<lambda>y m. if m < y then y else m) = (max :: int \<Rightarrow> int \<Rightarrow> int)"
    by (intro ext) (simp add: max_def)
  then show ?thesis by (simp add: py_max_def)
qed

lemma py_min_Min: "py_min x xs = Min (set (x # xs))"
  by (simp only: py_min_fold Min.set_eq_fold)

lemma py_max_Max: "py_max x xs = Max (set (x # xs))"
  by (simp only: py_max_fold Max.set_eq_fold)

lemma coding_features_empty: "(coding_features fs = []) = (\<forall>f\<in>set fs. type f \<noteq> ''CDS'')"
  by (simp add: coding_features_def filter_empty_conv)

lemma contributed_empty:
  assumes "\<forall>f\<in>set fs. \<not> unlocated_cds f"
  shows "(contributed_starts fs = []) = (coding_features fs = [])"
    and "(contributed_ends fs = []) = (coding_features fs = [])"
  using assms
proof (induction fs)
  case Nil
  case 1 show ?case by (simp add: contributed_Nil coding_features_def)
  case 2 show ?case by (simp add: contributed_Nil coding_features_def)
next
  case (Cons f fs)
  case 1
  then show ?case
    by (cases "type f = ''CDS''"; cases "location f")
      (simp_all add: contributed_Cons_other contributed_Cons_cds Cons.IH unlocated_cds_def
        coding_features_def)
  case 2
  then show ?case
    by (cases "type f = ''CDS''"; cases "location f")
      (simp_all add: contributed_Cons_other contributed_Cons_cds Cons.IH unlocated_cds_def
        coding_features_def)
qed

lemma find_coding_boundaries_cases:
  "find_coding_boundaries sp self =
     (if \<exists>f\<in>set (features self). unlocated_cds f then Inl AttributeError
      else if coding_features (features self) = [] then Inr (None, None)
      else Inr (Some (Min (set (contributed_starts (features self)))),
                Some (Max (set (contributed_ends (features self))))))"
proof (cases "\<exists>f\<in>set (features self). unlocated_cds f")
  case True
  then show ?thesis
    by (simp add: find_coding_boundaries_def coding_loop_from_empty)
next
  case False
  then have all: "\<forall>f\<in>set (features self). \<not> unlocated_cds f" by simp
  show ?thesis
  proof (cases "coding_features (features self) = []")
    case True
    with all have "contributed_starts (features self) = []" "contributed_ends (features self) = []"
      by (simp_all add: contributed_empty)
    with False True show ?thesis
      by (simp add: find_coding_boundaries_def coding_loop_from_empty)
  next
    case ne: False
    with all obtain s ss t ts where
      "contributed_starts (features self) = s # ss" "contributed_ends (features self) = t # ts"
      by (metis contributed_empty neq_Nil_conv)
    with False ne show ?thesis
      by (simp add: find_coding_boundaries_def coding_loop_from_empty py_min_Min py_max_Max)
  qed
qed

lemma contributed_append:
  "contributed_starts (xs @ ys) = contributed_starts xs @ contributed_starts ys"
  "contributed_ends (xs @ ys) = contributed_ends xs @ contributed_ends ys"
  by (simp_all add: contributed_starts_def contributed_ends_def coding_features_def
      List.map_filter_def)

lemma coding_loop_step:
  assumes "type f = ''CDS''" and "location f = Some loc"
  shows "coding_loop sp (f # after) (starts, stops) =
     coding_loop sp after (starts @ [fst (contribution loc)], stops @ [snd (contribution loc)])"
  using assms
  by (simp add: bounds_via_parts_contribution bounds_direct_contribution)

lemma coding_loop_insert:
  assumes "type f = ''CDS''" and "location f = Some loc"
    and "coding_loop sp before ([], []) = Inr (s1, e1)"
    and "coding_loop sp after ([], []) = Inr (s2, e2)"
  shows "coding_loop sp (before @ f # after) ([], []) =
     Inr (s1 @ fst (contribution loc) # s2, e1 @ snd (contribution loc) # e2)"
proof -
  from assms(3) have b: "\<forall>g\<in>set before. \<not> unlocated_cds g"
    "s1 = contributed_starts before" "e1 = contributed_ends before"
    using coding_loop_returns by blast+
  from assms(4) have a: "\<forall>g\<in>set after. \<not> unlocated_cds g"
    "s2 = contributed_starts after" "e2 = contributed_ends after"
    using coding_loop_returns by blast+
  have f: "\<not> unlocated_cds f" using assms(2) by (simp add: unlocated_cds_def)
  have "contributed_starts (before @ f # after) = s1 @ fst (contribution loc) # s2"
    "contributed_ends (before @ f # after) = e1 @ snd (contribution loc) # e2"
    using assms(1,2) a b
    by (simp_all add: contributed_append contributed_Cons_cds)
  moreover have "\<not> (\<exists>g\<in>set (before @ f # after). unlocated_cds g)"
    using a b f by auto
  ultimately show ?thesis
    by (simp only: coding_loop_from_empty if_False)
qed

subsection \<open>Slices, regions and files\<close>

text \<open>
  With bounds that are not negative, slices are \<open>take\<close> and \<open>drop\<close>. The extractors
  return when \<^verbatim>\<open>find_coding_boundaries\<close> does, and \<^verbatim>\<open>save_utrs\<close> then
  performs one write for each region that is present.
\<close>

lemma length_py_slice_to:
  "0 \<le> k \<Longrightarrow> int (length (py_slice s None (Some k))) = min k (int (length s))"
  by (simp add: py_slice_def adjust_index_def Let_def)

lemma length_py_slice_from:
  "0 \<le> k \<Longrightarrow> int (length (py_slice s (Some k) None)) = int (length s) - min k (int (length s))"
  by (simp add: py_slice_def adjust_index_def Let_def)

lemma py_slice_to: "0 \<le> k \<Longrightarrow> py_slice s None (Some k) = take (nat k) s"
  by (simp add: py_slice_def adjust_index_def Let_def min_def)

lemma py_slice_from: "0 \<le> k \<Longrightarrow> py_slice s (Some k) None = drop (nat k) s"
  by (simp add: py_slice_def adjust_index_def Let_def min_def)

lemma py_slice_between:
  "0 \<le> a \<Longrightarrow> a \<le> b \<Longrightarrow> b \<le> int (length s) \<Longrightarrow>
   py_slice s (Some a) (Some b) = take (nat b - nat a) (drop (nat a) s)"
  by (simp add: py_slice_def adjust_index_def Let_def min_def nat_diff_distrib)

lemma take_mid_drop:
  assumes "a \<le> b"
  shows "take a s @ take (b - a) (drop a s) @ drop b s = s"
proof -
  have "drop b s = drop (b - a) (drop a s)"
    using assms by simp
  then have "take (b - a) (drop a s) @ drop b s = drop a s"
    by (simp only: append_take_drop_id)
  then show ?thesis by simp
qed

lemma extract_5prime_utr_cases:
  "find_coding_boundaries sp self = Inl e \<Longrightarrow> extract_5prime_utr sp self = Inl e"
  "find_coding_boundaries sp self = Inr (None, b) \<Longrightarrow> extract_5prime_utr sp self = Inr None"
  "find_coding_boundaries sp self = Inr (Some gs, b) \<Longrightarrow>
   extract_5prime_utr sp self =
     Inr (Some \<lparr> seq = py_slice (sequence self) None (Some gs),
                 id_rec = record_id self @ ''_5UTR'',
                 description = ''5' UTR from '' @ record_id self \<rparr>)"
  by (simp_all add: extract_5prime_utr_def)

lemma extract_3prime_utr_cases:
  "find_coding_boundaries sp self = Inl e \<Longrightarrow> extract_3prime_utr sp self = Inl e"
  "find_coding_boundaries sp self = Inr (a, None) \<Longrightarrow> extract_3prime_utr sp self = Inr None"
  "find_coding_boundaries sp self = Inr (a, Some ge) \<Longrightarrow>
   extract_3prime_utr sp self =
     Inr (Some \<lparr> seq = py_slice (sequence self) (Some ge) None,
                 id_rec = record_id self @ ''_3UTR'',
                 description = ''3' UTR from '' @ record_id self \<rparr>)"
  by (simp_all add: extract_3prime_utr_def)

lemma extractors_return:
  assumes "find_coding_boundaries sp self = Inr b"
  shows "\<exists>u5 u3. extract_5prime_utr sp self = Inr u5 \<and> extract_3prime_utr sp self = Inr u3"
  using assms
  by (cases b; cases "fst b"; cases "snd b")
    (simp_all add: extract_5prime_utr_def extract_3prime_utr_def)

lemma save_utrs_raises:
  "find_coding_boundaries sp self = Inl e \<Longrightarrow> save_utrs sp self prefix = ([], Some e)"
  by (simp add: save_utrs_def extract_5prime_utr_def)

lemma save_utrs_writes:
  assumes "extract_5prime_utr sp self = Inr u5" and "extract_3prime_utr sp self = Inr u3"
  shows "save_utrs sp self prefix =
     ((case u5 of None \<Rightarrow> [] | Some u \<Rightarrow> [(prefix @ ''_5UTR.fasta'', u)])
      @ (case u3 of None \<Rightarrow> [] | Some u \<Rightarrow> [(prefix @ ''_3UTR.fasta'', u)]), None)"
  using assms
  by (simp add: save_utrs_def truthy_def SeqRecord_bool_def Let_def split: option.splits)

subsection \<open>The pattern\<close>

text \<open>
  A match of the pattern holds \<open>locus segment\<close>, so the test of line 22 never rejects a
  note that the search of line 23 accepts. The search gives the first match, and it finds
  one exactly when the literal occurs somewhere with a digit behind it. Only the digits
  among the characters of the string matter to the search.
\<close>

lemma take_prefix_of_take:
  assumes "take (length (p @ q)) xs = p @ q"
  shows "take (length p) xs = p"
proof -
  have "take (length p) xs = take (length p) (take (length (p @ q)) xs)"
    by (simp add: min_def)
  also have "\<dots> = p" by (simp only: assms) simp
  finally show ?thesis .
qed

lemma re_search_digits_contains:
  "re_search_digits digit (p @ q) s = Some d \<Longrightarrow> str_contains p s"
proof (induction s)
  case Nil
  then show ?case by simp
next
  case (Cons c cs)
  show ?case
  proof (cases "take (length (p @ q)) (c # cs) = p @ q")
    case True
    then have "take (length p) (c # cs) = p" by (rule take_prefix_of_take)
    then show ?thesis by simp
  next
    case False
    with Cons.prems have "re_search_digits digit (p @ q) cs = Some d" by simp
    then have "str_contains p cs" by (rule Cons.IH)
    then show ?thesis by simp
  qed
qed

lemma locus_segment_literal: "ascii ''locus segment '' = ascii ''locus segment'' @ ascii '' ''"
  by (simp add: ascii_def)

lemma locus_segment_contains:
  "re_search_digits digit (ascii ''locus segment '') s = Some d \<Longrightarrow>
   str_contains (ascii ''locus segment'') s"
  unfolding locus_segment_literal by (rule re_search_digits_contains)

lemma leftmost_matchI:
  assumes "s = pre @ lit @ rest" and "d = takeWhile digit rest" and "d \<noteq> []"
    and "\<And>pre' rest'. s = pre' @ lit @ rest' \<Longrightarrow> length pre' < length pre \<Longrightarrow>
           takeWhile digit rest' = []"
  shows "leftmost_match digit lit s d"
  unfolding leftmost_match_def using assms by blast

lemma re_search_digits_leftmost:
  "re_search_digits digit lit s = Some d \<Longrightarrow> leftmost_match digit lit s d"
proof (induction s)
  case Nil
  then show ?case by simp
next
  case (Cons c cs)
  let ?s = "c # cs"
  show ?case
  proof (cases "take (length lit) ?s = lit \<and> takeWhile digit (drop (length lit) ?s) \<noteq> []")
    case True
    with Cons.prems have d: "d = takeWhile digit (drop (length lit) ?s)" by simp
    from True have "?s = [] @ lit @ drop (length lit) ?s"
      by (metis append_Nil append_take_drop_id)
    with d True show ?thesis
      by (intro leftmost_matchI [where pre = "[]" and rest = "drop (length lit) ?s"]) simp_all
  next
    case False
    with Cons.prems have "re_search_digits digit lit cs = Some d" by auto
    then have "leftmost_match digit lit cs d" by (rule Cons.IH)
    then obtain pre rest where cs: "cs = pre @ lit @ rest"
      and d: "d = takeWhile digit rest" "d \<noteq> []"
      and least: "\<And>pre' rest'. cs = pre' @ lit @ rest' \<Longrightarrow> length pre' < length pre \<Longrightarrow>
             takeWhile digit rest' = []"
      unfolding leftmost_match_def by blast
    have least': "takeWhile digit rest' = []"
      if eq: "?s = pre' @ lit @ rest'" and len: "length pre' < length (c # pre)" for pre' rest'
    proof (cases pre')
      case Nil
      with eq have "take (length lit) ?s = lit" "drop (length lit) ?s = rest'"
        by simp_all
      with False show ?thesis by simp
    next
      case (Cons c' pre'')
      with eq len have "cs = pre'' @ lit @ rest'" "length pre'' < length pre" by simp_all
      then show ?thesis by (rule least)
    qed
    show ?thesis
    proof (rule leftmost_matchI [where pre = "c # pre" and rest = rest])
      show "?s = (c # pre) @ lit @ rest" using cs by simp
      show "d = takeWhile digit rest" by (rule d)
      show "d \<noteq> []" by (rule d)
      show "takeWhile digit rest' = []"
        if "?s = pre' @ lit @ rest'" and "length pre' < length (c # pre)" for pre' rest'
        using that by (rule least')
    qed
  qed
qed

lemma leftmost_re_search_digits:
  "leftmost_match digit lit s d \<Longrightarrow> re_search_digits digit lit s = Some d"
proof (induction s)
  case Nil
  then show ?case by (auto simp: leftmost_match_def)
next
  case (Cons c cs)
  let ?s = "c # cs"
  from Cons.prems obtain pre rest where s: "?s = pre @ lit @ rest"
    and d: "d = takeWhile digit rest" "d \<noteq> []"
    and least: "\<And>pre' rest'. ?s = pre' @ lit @ rest' \<Longrightarrow> length pre' < length pre \<Longrightarrow>
           takeWhile digit rest' = []"
    unfolding leftmost_match_def by blast
  show ?case
  proof (cases pre)
    case Nil
    with s have "take (length lit) ?s = lit" "drop (length lit) ?s = rest" by simp_all
    with d show ?thesis by simp
  next
    case (Cons c' pre0)
    with s have cs: "cs = pre0 @ lit @ rest" by simp
    have nohead: "\<not> (take (length lit) ?s = lit \<and> takeWhile digit (drop (length lit) ?s) \<noteq> [])"
    proof
      assume h: "take (length lit) ?s = lit \<and> takeWhile digit (drop (length lit) ?s) \<noteq> []"
      then have "?s = [] @ lit @ drop (length lit) ?s"
        by (metis append_Nil append_take_drop_id)
      moreover have "length ([] :: 'a list) < length pre" using Cons by simp
      ultimately have "takeWhile digit (drop (length lit) ?s) = []" by (rule least)
      with h show False by simp
    qed
    have "leftmost_match digit lit cs d"
    proof (rule leftmost_matchI [where pre = pre0 and rest = rest])
      show "cs = pre0 @ lit @ rest" by (rule cs)
      show "d = takeWhile digit rest" by (rule d)
      show "d \<noteq> []" by (rule d)
      show "takeWhile digit rest' = []"
        if "cs = pre' @ lit @ rest'" and "length pre' < length pre0" for pre' rest'
      proof -
        from that have "?s = (c # pre') @ lit @ rest'" "length (c # pre') < length pre"
          using Cons by simp_all
        then show ?thesis by (rule least)
      qed
    qed
    then have "re_search_digits digit lit cs = Some d" by (rule Cons.IH)
    with nohead show ?thesis by auto
  qed
qed

lemma re_search_digits_iff:
  "(re_search_digits digit lit s = Some d) = leftmost_match digit lit s d"
  using re_search_digits_leftmost leftmost_re_search_digits by blast

lemma leftmost_match_occurs:
  "leftmost_match digit lit s d \<Longrightarrow> occurs_with_digits digit lit s d"
proof -
  assume "leftmost_match digit lit s d"
  then obtain pre rest where s: "s = pre @ lit @ rest"
    and d: "d = takeWhile digit rest" "d \<noteq> []"
    unfolding leftmost_match_def by blast
  have "rest = d @ dropWhile digit rest" using d by simp
  with s have "s = pre @ lit @ d @ dropWhile digit rest" by simp
  moreover have "list_all digit d"
    using d by (auto simp: list_all_iff dest: set_takeWhileD)
  ultimately show ?thesis
    unfolding occurs_with_digits_def using d by blast
qed

lemma occurs_re_search_digits:
  "occurs_with_digits digit lit s d \<Longrightarrow> \<exists>d'. re_search_digits digit lit s = Some d'"
proof -
  assume "occurs_with_digits digit lit s d"
  then obtain pre post where s: "s = pre @ lit @ d @ post"
    and d: "d \<noteq> []" "list_all digit d"
    unfolding occurs_with_digits_def by blast
  from d obtain x xs where dx: "d = x # xs" "digit x"
    by (cases d) auto
  have "\<exists>d'. re_search_digits digit lit (pre @ lit @ d @ post) = Some d'"
  proof (induction pre)
    case Nil
    have "lit @ d @ post \<noteq> []" using d by simp
    then obtain c cs where c: "lit @ d @ post = c # cs" by (cases "lit @ d @ post") auto
    have "take (length lit) (c # cs) = lit" "drop (length lit) (c # cs) = d @ post"
      using c [symmetric] by simp_all
    moreover have "takeWhile digit (d @ post) \<noteq> []" using dx by simp
    ultimately have "\<exists>d'. re_search_digits digit lit (c # cs) = Some d'" by simp
    with c show ?case by simp
  next
    case (Cons a pre)
    then show ?case by auto
  qed
  with s show ?thesis by simp
qed

lemma pattern_matches_iff:
  "(\<exists>d. leftmost_match digit lit s d) = (\<exists>d. occurs_with_digits digit lit s d)"
  using leftmost_match_occurs occurs_re_search_digits re_search_digits_iff by blast

lemma re_search_digits_cong:
  assumes "\<forall>c\<in>set s. digit c = digit' c"
  shows "re_search_digits digit lit s = re_search_digits digit' lit s"
  using assms
proof (induction s)
  case Nil
  show ?case by simp
next
  case (Cons c cs)
  have "digit x = digit' x" if "x \<in> set (drop (length lit) (c # cs))" for x
  proof -
    from that have "x \<in> set (c # cs)" by (rule in_set_dropD)
    with Cons.prems show ?thesis by blast
  qed
  then have "takeWhile digit (drop (length lit) (c # cs)) =
      takeWhile digit' (drop (length lit) (c # cs))"
    by (intro takeWhile_cong refl)
  moreover have "re_search_digits digit lit cs = re_search_digits digit' lit cs"
    using Cons by simp
  ultimately show ?case by simp
qed

subsection \<open>The loop of \<^verbatim>\<open>find_segment_boundaries\<close>\<close>

text \<open>
  One round of the loop raises on an empty \<open>note\<close> list and on a matching feature with
  no location; otherwise it appends the range of the feature under its segment identifier,
  if it has one. So the method returns the exception of the first such feature, or the
  dictionary of all ranges.
\<close>

lemma segment_loop_step:
  "segment_loop U (f # fs) segs =
     (case feature_fault U f of
        Some e \<Rightarrow> Inl e
      | None \<Rightarrow>
          segment_loop U fs
            (case segment_id U f of
               None \<Rightarrow> segs
             | Some k \<Rightarrow> (case feature_range f of None \<Rightarrow> segs | Some r \<Rightarrow> append_range segs k r)))"
proof (cases "type f = ''misc_feature''")
  case False
  then show ?thesis
    by (simp add: feature_fault_def empty_note_def unlocated_segment_def segment_id_def
        first_note_def)
next
  case misc: True
  show ?thesis
  proof (cases "qualifiers f ''note''")
    case None
    with misc show ?thesis
      by (simp add: feature_fault_def empty_note_def unlocated_segment_def segment_id_def
          first_note_def)
  next
    case (Some vs)
    show ?thesis
    proof (cases vs)
      case Nil
      with misc Some show ?thesis by (simp add: feature_fault_def empty_note_def)
    next
      case (Cons v rest)
      note q = Some Cons
      show ?thesis
      proof (cases "re_search_digits (re_digit U) (ascii ''locus segment '') (str_lower U v)")
        case None
        with misc q show ?thesis
          by (simp add: feature_fault_def empty_note_def unlocated_segment_def segment_id_def
              first_note_def)
      next
        case (Some d)
        then have c: "str_contains (ascii ''locus segment'') (str_lower U v)"
          by (rule locus_segment_contains)
        show ?thesis
        proof (cases "location f")
          case None
          with misc q Some c show ?thesis
            by (simp add: feature_fault_def empty_note_def unlocated_segment_def segment_id_def
                first_note_def)
        next
          case (Some loc)
          with misc q \<open>re_search_digits (re_digit U) (ascii ''locus segment '') (str_lower U v) = Some d\<close>
            c show ?thesis
            by (simp add: feature_fault_def empty_note_def unlocated_segment_def segment_id_def
                first_note_def feature_range_def)
        qed
      qed
    qed
  qed
qed

lemma extend_Nil: "extend U segs [] = segs"
  by (rule ext) (simp add: extend_def ranges_of_def split: option.splits)

lemma extend_Cons_None: "segment_id U f = None \<Longrightarrow> extend U segs (f # fs) = extend U segs fs"
  by (rule ext) (simp add: extend_def ranges_of_def)

lemma extend_Cons_Some:
  "segment_id U f = Some k \<Longrightarrow> feature_range f = Some r \<Longrightarrow>
   extend U segs (f # fs) = extend U (append_range segs k r) fs"
  by (rule ext) (auto simp: extend_def ranges_of_def append_range_def split: option.splits)

lemma no_fault_range:
  "feature_fault U f = None \<Longrightarrow> segment_id U f = Some k \<Longrightarrow> \<exists>r. feature_range f = Some r"
  by (cases "location f")
    (simp_all add: feature_fault_def unlocated_segment_def feature_range_def split: if_splits)

lemma segment_loop_result:
  "segment_loop U fs segs =
     (case first_fault U fs of Some e \<Rightarrow> Inl e | None \<Rightarrow> Inr (extend U segs fs))"
proof (induction fs arbitrary: segs)
  case Nil
  show ?case by (simp add: extend_Nil)
next
  case (Cons f fs)
  show ?case
  proof (cases "feature_fault U f")
    case (Some e)
    then show ?thesis
      by (simp add: segment_loop_step del: segment_loop.simps)
  next
    case nofault: None
    show ?thesis
    proof (cases "segment_id U f")
      case None
      with nofault show ?thesis
        by (simp add: segment_loop_step Cons.IH extend_Cons_None del: segment_loop.simps
            split: option.splits)
    next
      case (Some k)
      with nofault obtain r where r: "feature_range f = Some r"
        using no_fault_range by blast
      with nofault Some show ?thesis
        by (simp add: segment_loop_step Cons.IH extend_Cons_Some del: segment_loop.simps
            split: option.splits)
    qed
  qed
qed

lemma extend_empty: "extend U Map.empty fs = segments_of U fs"
  by (rule ext) (simp add: extend_def segments_of_def)

lemma find_segment_boundaries_result:
  "find_segment_boundaries U self =
     (case first_fault U (features self) of
        Some e \<Rightarrow> Inl e
      | None \<Rightarrow> Inr (segments_of U (features self)))"
  by (simp add: find_segment_boundaries_def segment_loop_result extend_empty
      split: option.splits)

lemma first_fault_None_iff:
  "(first_fault U fs = None) = (\<forall>f\<in>set fs. \<not> empty_note f \<and> \<not> unlocated_segment U f)"
  by (induction fs) (auto simp: feature_fault_def split: option.splits if_splits)

lemma segment_id_iff:
  "(segment_id U f = Some k) =
     (type f = ''misc_feature'' \<and>
      (\<exists>v rest d. qualifiers f ''note'' = Some (v # rest) \<and>
         leftmost_match (re_digit U) (ascii ''locus segment '') (str_lower U v) d \<and>
         k = ascii ''segment_'' @ d))"
  by (auto simp: segment_id_def first_note_def re_search_digits_iff
      split: option.splits list.splits if_splits)

lemma segment_id_None_iff:
  "(segment_id U f = None) =
     (\<not> (type f = ''misc_feature'' \<and>
         (\<exists>v rest d. qualifiers f ''note'' = Some (v # rest) \<and>
            occurs_with_digits (re_digit U) (ascii ''locus segment '') (str_lower U v) d)))"
proof -
  have "(segment_id U f = None) = (\<not> (\<exists>k. segment_id U f = Some k))" by auto
  also have "\<dots> = (\<not> (type f = ''misc_feature'' \<and>
         (\<exists>v rest. qualifiers f ''note'' = Some (v # rest) \<and>
            (\<exists>d. leftmost_match (re_digit U) (ascii ''locus segment '') (str_lower U v) d))))"
    by (simp only: segment_id_iff) blast
  also have "\<dots> = (\<not> (type f = ''misc_feature'' \<and>
         (\<exists>v rest. qualifiers f ''note'' = Some (v # rest) \<and>
            (\<exists>d. occurs_with_digits (re_digit U) (ascii ''locus segment '') (str_lower U v) d))))"
    by (simp only: pattern_matches_iff)
  finally show ?thesis by blast
qed

subsection \<open>The notes of the scenarios\<close>

text \<open>
  On ASCII text every table that is faithful there searches as the ASCII table does. The
  three notes of the scenarios, and what the method returns on them.
\<close>

lemma ascii_faithful_ascii_tables: "ascii_faithful ascii_tables"
  by (simp add: ascii_faithful_def ascii_tables_def)

lemma ascii_faithful_arabic_tables: "ascii_faithful arabic_tables"
  by (simp add: ascii_faithful_def arabic_tables_def)

lemma ascii_lower_below: "c < 128 \<Longrightarrow> ascii_lower c < 128"
  by (simp add: ascii_lower_def)

lemma ascii_search:
  assumes "ascii_faithful U" and "\<forall>c\<in>set s. c < 128"
  shows "re_search_digits (re_digit U) lit (str_lower U s) =
         re_search_digits ascii_digit lit (map ascii_lower s)"
proof -
  from assms have low: "str_lower U s = map ascii_lower s"
    by (simp add: ascii_faithful_def)
  have "\<forall>c\<in>set (map ascii_lower s). re_digit U c = ascii_digit c"
    using assms by (auto simp: ascii_faithful_def ascii_lower_below)
  then have "re_search_digits (re_digit U) lit (map ascii_lower s) =
      re_search_digits ascii_digit lit (map ascii_lower s)"
    by (rule re_search_digits_cong)
  with low show ?thesis by simp
qed

lemma search_scenario_note:
  assumes "ascii_faithful U"
  shows "re_search_digits (re_digit U) (ascii ''locus segment '')
           (str_lower U (ascii ''Locus Segment 3 protein'')) = Some (ascii ''3'')"
proof -
  have "\<forall>c\<in>set (ascii ''Locus Segment 3 protein''). c < 128"
    by (simp add: ascii_def)
  with assms have "re_search_digits (re_digit U) (ascii ''locus segment '')
           (str_lower U (ascii ''Locus Segment 3 protein'')) =
      re_search_digits ascii_digit (ascii ''locus segment '')
           (map ascii_lower (ascii ''Locus Segment 3 protein''))"
    by (rule ascii_search)
  also have "\<dots> = Some (ascii ''3'')"
    by (simp add: ascii_def ascii_lower_def ascii_digit_def)
  finally show ?thesis .
qed

lemma search_random_comment:
  assumes "ascii_faithful U"
  shows "re_search_digits (re_digit U) (ascii ''locus segment '')
           (str_lower U (ascii ''random comment'')) = None"
proof -
  have "\<forall>c\<in>set (ascii ''random comment''). c < 128"
    by (simp add: ascii_def)
  with assms have "re_search_digits (re_digit U) (ascii ''locus segment '')
           (str_lower U (ascii ''random comment'')) =
      re_search_digits ascii_digit (ascii ''locus segment '')
           (map ascii_lower (ascii ''random comment''))"
    by (rule ascii_search)
  also have "\<dots> = None"
    by (simp add: ascii_def ascii_lower_def ascii_digit_def)
  finally show ?thesis .
qed

lemma search_malformed_note:
  assumes "ascii_faithful U"
  shows "re_search_digits (re_digit U) (ascii ''locus segment '')
           (str_lower U (ascii ''Locus Segment III'')) = None"
proof -
  have "\<forall>c\<in>set (ascii ''Locus Segment III''). c < 128"
    by (simp add: ascii_def)
  with assms have "re_search_digits (re_digit U) (ascii ''locus segment '')
           (str_lower U (ascii ''Locus Segment III'')) =
      re_search_digits ascii_digit (ascii ''locus segment '')
           (map ascii_lower (ascii ''Locus Segment III''))"
    by (rule ascii_search)
  also have "\<dots> = None"
    by (simp add: ascii_def ascii_lower_def ascii_digit_def)
  finally show ?thesis .
qed

lemma segments_scenario:
  assumes "ascii_faithful U"
    and "type a = ''misc_feature''"
    and "qualifiers a ''note'' = Some [ascii ''Locus Segment 3 protein'']"
    and "location a = Some (Simple 5 40)"
    and "type b = ''misc_feature''" and "qualifiers b ''note'' = Some [ascii ''random comment'']"
    and "features r = [a, b]"
  shows "find_segment_boundaries U r = Inr [ascii ''segment_3'' \<mapsto> [(5, 40)]]"
proof -
  have a: "segment_id U a = Some (ascii ''segment_3'')"
    using assms(2,3) search_scenario_note [OF assms(1)]
    by (simp add: segment_id_def first_note_def ascii_def)
  have b: "segment_id U b = None"
    using assms(5,6) search_random_comment [OF assms(1)]
    by (simp add: segment_id_def first_note_def)
  have nf: "first_fault U [a, b] = None"
    using a b assms
    by (simp add: feature_fault_def empty_note_def unlocated_segment_def)
  have "segments_of U [a, b] = [ascii ''segment_3'' \<mapsto> [(5, 40)]]"
    using a b assms by (intro ext) (simp add: segments_of_def ranges_of_def feature_range_def)
  then show ?thesis
    using assms nf by (simp add: find_segment_boundaries_result)
qed

lemma segments_malformed:
  assumes "ascii_faithful U"
    and "type c = ''misc_feature''" and "qualifiers c ''note'' = Some [ascii ''Locus Segment III'']"
    and "features r = [c]"
  shows "find_segment_boundaries U r = Inr Map.empty"
proof -
  have c: "segment_id U c = None"
    using assms(2,3) search_malformed_note [OF assms(1)]
    by (simp add: segment_id_def first_note_def)
  have nf: "first_fault U [c] = None"
    using c assms
    by (simp add: feature_fault_def empty_note_def unlocated_segment_def)
  have "segments_of U [c] = Map.empty"
    using c by (intro ext) (simp add: segments_of_def ranges_of_def)
  then show ?thesis
    using assms nf by (simp add: find_segment_boundaries_result)
qed

section \<open>The claims\<close>



text \<open>
  Claim C2. A CDS feature with a compound location contributes the start of its first
  sub-range and the end of its last sub-range to the two lists of the envelope computation;
  a CDS feature with a simple location contributes its own start and end. A compound CDS
  with sub-ranges [(10,20),(30,50)] contributes 10 and 50, whatever the features before
  and after it.
\<close>

theorem cds_feature_contribution:
  "(type f = ''CDS'' \<and> location f = Some (Compound p q ps) \<longrightarrow>
      coding_loop sp (f # after) (starts, stops) =
        coding_loop sp after (starts @ [fst p], stops @ [snd (last (p # q # ps))]) \<and>
      (coding_loop sp before ([], []) = Inr (s1, e1) \<and>
       coding_loop sp after ([], []) = Inr (s2, e2) \<longrightarrow>
         coding_loop sp (before @ f # after) ([], []) =
           Inr (s1 @ fst p # s2, e1 @ snd (last (p # q # ps)) # e2)))
   \<and> (type g = ''CDS'' \<and> location g = Some (Simple s e) \<longrightarrow>
      coding_loop sp (g # after) (starts, stops) =
        coding_loop sp after (starts @ [s], stops @ [e]) \<and>
      (coding_loop sp before ([], []) = Inr (s1, e1) \<and>
       coding_loop sp after ([], []) = Inr (s2, e2) \<longrightarrow>
         coding_loop sp (before @ g # after) ([], []) = Inr (s1 @ s # s2, e1 @ e # e2)))
   \<and> (type h = ''CDS'' \<and> location h = Some (Compound (10, 20) (30, 50) []) \<longrightarrow>
      coding_loop sp (h # after) (starts, stops) =
        coding_loop sp after (starts @ [10], stops @ [50]) \<and>
      (coding_loop sp before ([], []) = Inr (s1, e1) \<and>
       coding_loop sp after ([], []) = Inr (s2, e2) \<longrightarrow>
         coding_loop sp (before @ h # after) ([], []) = Inr (s1 @ 10 # s2, e1 @ 50 # e2)))"
proof -
  have step: "coding_loop sp (f # after) (starts, stops) =
        coding_loop sp after (starts @ [fst (contribution loc)], stops @ [snd (contribution loc)])"
    if "type f = ''CDS''" and "location f = Some loc" for f loc
    using that by (rule coding_loop_step)
  have ins: "coding_loop sp (before @ f # after) ([], []) =
       Inr (s1 @ fst (contribution loc) # s2, e1 @ snd (contribution loc) # e2)"
    if "type f = ''CDS''" and "location f = Some loc"
      and "coding_loop sp before ([], []) = Inr (s1, e1)"
      and "coding_loop sp after ([], []) = Inr (s2, e2)" for f loc
    using that by (rule coding_loop_insert)
  have compound: "coding_loop sp (f # after) (starts, stops) =
        coding_loop sp after (starts @ [fst p], stops @ [snd (last (p # q # ps))]) \<and>
      (coding_loop sp before ([], []) = Inr (s1, e1) \<and>
       coding_loop sp after ([], []) = Inr (s2, e2) \<longrightarrow>
         coding_loop sp (before @ f # after) ([], []) =
           Inr (s1 @ fst p # s2, e1 @ snd (last (p # q # ps)) # e2))"
    if "type f = ''CDS''" and "location f = Some (Compound p q ps)" for f p q ps
    using step [OF that] ins [OF that] by simp
  have simple: "coding_loop sp (g # after) (starts, stops) =
        coding_loop sp after (starts @ [s], stops @ [e]) \<and>
      (coding_loop sp before ([], []) = Inr (s1, e1) \<and>
       coding_loop sp after ([], []) = Inr (s2, e2) \<longrightarrow>
         coding_loop sp (before @ g # after) ([], []) = Inr (s1 @ s # s2, e1 @ e # e2))"
    if "type g = ''CDS''" and "location g = Some (Simple s e)"
    using step [OF that] ins [OF that] by simp
  have example: "coding_loop sp (h # after) (starts, stops) =
        coding_loop sp after (starts @ [10], stops @ [50]) \<and>
      (coding_loop sp before ([], []) = Inr (s1, e1) \<and>
       coding_loop sp after ([], []) = Inr (s2, e2) \<longrightarrow>
         coding_loop sp (before @ h # after) ([], []) = Inr (s1 @ 10 # s2, e1 @ 50 # e2))"
    if "type h = ''CDS''" and "location h = Some (Compound (10, 20) (30, 50) [])"
    using compound [OF that] by simp
  show ?thesis using compound simple example by blast
qed

theorem cds_feature_contribution_witness:
  "coding_loop True
     [\<lparr> type = ''CDS'', location = Some (Simple 5 45), qualifiers = Map.empty \<rparr>,
      \<lparr> type = ''CDS'', location = Some (Compound (10, 20) (30, 50) []), qualifiers = Map.empty \<rparr>,
      \<lparr> type = ''CDS'', location = Some (Simple 15 60), qualifiers = Map.empty \<rparr>] ([], [])
   = Inr ([5, 10, 15], [45, 50, 60])
   \<and> coding_loop False
     [\<lparr> type = ''CDS'', location = Some (Simple 7 9), qualifiers = Map.empty \<rparr>] ([], [])
   = Inr ([7], [9])"
proof -
  let ?a = "\<lparr> type = ''CDS'', location = Some (Simple 5 45), qualifiers = Map.empty \<rparr>"
  let ?h = "\<lparr> type = ''CDS'', location = Some (Compound (10, 20) (30, 50) []),
      qualifiers = Map.empty \<rparr>"
  let ?b = "\<lparr> type = ''CDS'', location = Some (Simple 15 60), qualifiers = Map.empty \<rparr>"
  let ?g = "\<lparr> type = ''CDS'', location = Some (Simple 7 9), qualifiers = Map.empty \<rparr>"
  have before: "coding_loop True [?a] ([], []) = Inr ([5], [45])"
    by (simp add: bounds_via_parts_def)
  have after: "coding_loop True [?b] ([], []) = Inr ([15], [60])"
    by (simp add: bounds_via_parts_def)
  have one: "coding_loop True [?a, ?h, ?b] ([], []) = Inr ([5, 10, 15], [45, 50, 60])"
    using cds_feature_contribution
      [where h = ?h and sp = True and before = "[?a]" and after = "[?b]"
         and ?s1.0 = "[5]" and ?e1.0 = "[45]" and ?s2.0 = "[15]" and ?e2.0 = "[60]"]
      before after
    by simp
  have two: "coding_loop False [?g] ([], []) = Inr ([7], [9])"
    using cds_feature_contribution
      [where g = ?g and sp = False and after = "[]" and s = 7 and e = 9
         and starts = "[]" and stops = "[]"]
    by simp
  show ?thesis using one two by simp
qed

text \<open>
  Claim C3, as stated, fails: on a record with no CDS feature \<^verbatim>\<open>get_utr_details\<close>
  gives no report when \<^verbatim>\<open>find_segment_boundaries\<close> raises, because a matching
  \<open>misc_feature\<close> has no location or because a \<open>note\<close> list is empty.
\<close>

theorem no_coding_report_raises:
  "get_utr_details ascii_tables True
     \<lparr> record_id = ''MZ242720'', sequence = ''ACGTACGT'',
       features = [\<lparr> type = ''misc_feature'', location = None,
                     qualifiers = [''note'' \<mapsto> [ascii ''locus segment 3'']] \<rparr>] \<rparr>
   = Inl AttributeError
   \<and> get_utr_details ascii_tables True
     \<lparr> record_id = ''MZ242720'', sequence = ''ACGTACGT'',
       features = [\<lparr> type = ''misc_feature'', location = Some (Simple 0 8),
                     qualifiers = [''note'' \<mapsto> []] \<rparr>] \<rparr>
   = Inl IndexError"
  by (simp add: get_utr_details_def extract_5prime_utr_def extract_3prime_utr_def
      find_coding_boundaries_def find_segment_boundaries_def ascii_tables_def ascii_def
      ascii_lower_def ascii_digit_def)

text \<open>
  Claim C3, amended. When the feature list holds no CDS feature,
  \<^verbatim>\<open>find_coding_boundaries\<close> returns \<^verbatim>\<open>(None, None)\<close>, both extractors return
  \<^verbatim>\<open>None\<close> and \<^verbatim>\<open>save_utrs\<close> writes no file, none of them raising.
  \<^verbatim>\<open>get_utr_details\<close> returns the report, with both UTR lengths 0, exactly when
  \<^verbatim>\<open>find_segment_boundaries\<close> returns: when no \<open>misc_feature\<close> has an empty
  \<open>note\<close> list and every feature with a segment identifier has a location. Otherwise it
  raises what \<^verbatim>\<open>find_segment_boundaries\<close> raises.
\<close>

theorem no_coding_feature:
  assumes "\<forall>f\<in>set (features self). type f \<noteq> ''CDS''"
  shows "find_coding_boundaries sp self = Inr (None, None)
    \<and> extract_5prime_utr sp self = Inr None
    \<and> extract_3prime_utr sp self = Inr None
    \<and> save_utrs sp self prefix = ([], None)
    \<and> get_utr_details U sp self =
        (case find_segment_boundaries U self of
           Inl e \<Rightarrow> Inl e
         | Inr segs \<Rightarrow> Inr \<lparr> utr5_length = 0, utr3_length = 0, segments = segs \<rparr>)
    \<and> ((\<forall>f\<in>set (features self). \<not> empty_note f \<and> \<not> unlocated_segment U f) \<longrightarrow>
        get_utr_details U sp self =
          Inr \<lparr> utr5_length = 0, utr3_length = 0, segments = segments_of U (features self) \<rparr>)
    \<and> ((\<exists>f\<in>set (features self). empty_note f \<or> unlocated_segment U f) \<longrightarrow>
        (\<exists>e. get_utr_details U sp self = Inl e \<and> find_segment_boundaries U self = Inl e))"
proof -
  from assms have "coding_features (features self) = []"
    by (simp add: coding_features_empty)
  moreover from assms have "\<not> (\<exists>f\<in>set (features self). unlocated_cds f)"
    by (auto simp: unlocated_cds_def)
  ultimately have b: "find_coding_boundaries sp self = Inr (None, None)"
    by (simp add: find_coding_boundaries_cases)
  have e5: "extract_5prime_utr sp self = Inr None"
    using b by (rule extract_5prime_utr_cases)
  have e3: "extract_3prime_utr sp self = Inr None"
    using b by (rule extract_3prime_utr_cases)
  have s: "save_utrs sp self prefix = ([], None)"
    by (simp add: save_utrs_writes [OF e5 e3])
  have g: "get_utr_details U sp self =
        (case find_segment_boundaries U self of
           Inl e \<Rightarrow> Inl e
         | Inr segs \<Rightarrow> Inr \<lparr> utr5_length = 0, utr3_length = 0, segments = segs \<rparr>)"
    by (simp add: get_utr_details_def e5 e3 seq_length_or_0_def split: sum.splits)
  have good: "get_utr_details U sp self =
          Inr \<lparr> utr5_length = 0, utr3_length = 0, segments = segments_of U (features self) \<rparr>"
    if "\<forall>f\<in>set (features self). \<not> empty_note f \<and> \<not> unlocated_segment U f"
  proof -
    from that have "first_fault U (features self) = None"
      by (simp add: first_fault_None_iff)
    then show ?thesis
      by (simp add: g find_segment_boundaries_result)
  qed
  have bad: "\<exists>e. get_utr_details U sp self = Inl e \<and> find_segment_boundaries U self = Inl e"
    if "\<exists>f\<in>set (features self). empty_note f \<or> unlocated_segment U f"
  proof -
    from that have "first_fault U (features self) \<noteq> None"
      by (simp add: first_fault_None_iff)
    then obtain e where "first_fault U (features self) = Some e" by blast
    then have "find_segment_boundaries U self = Inl e"
      by (simp add: find_segment_boundaries_result)
    then show ?thesis by (simp add: g)
  qed
  show ?thesis using b e5 e3 s g good bad by blast
qed

theorem no_coding_feature_witness:
  "find_coding_boundaries True
     \<lparr> record_id = ''MZ242720'', sequence = ''ACGTACGT'',
       features = [\<lparr> type = ''gene'', location = Some (Simple 2 6), qualifiers = Map.empty \<rparr>,
                   \<lparr> type = ''misc_feature'', location = Some (Simple 0 8),
                     qualifiers = [''note'' \<mapsto> [ascii ''random comment'']] \<rparr>] \<rparr>
   = Inr (None, None)
   \<and> save_utrs True
     \<lparr> record_id = ''MZ242720'', sequence = ''ACGTACGT'',
       features = [\<lparr> type = ''gene'', location = Some (Simple 2 6), qualifiers = Map.empty \<rparr>,
                   \<lparr> type = ''misc_feature'', location = Some (Simple 0 8),
                     qualifiers = [''note'' \<mapsto> [ascii ''random comment'']] \<rparr>] \<rparr> ''MZ242720''
   = ([], None)
   \<and> get_utr_details ascii_tables True
     \<lparr> record_id = ''MZ242720'', sequence = ''ACGTACGT'',
       features = [\<lparr> type = ''gene'', location = Some (Simple 2 6), qualifiers = Map.empty \<rparr>,
                   \<lparr> type = ''misc_feature'', location = Some (Simple 0 8),
                     qualifiers = [''note'' \<mapsto> [ascii ''random comment'']] \<rparr>] \<rparr>
   = Inr \<lparr> utr5_length = 0, utr3_length = 0, segments = Map.empty \<rparr>"
proof -
  let ?g = "\<lparr> type = ''gene'', location = Some (Simple 2 6), qualifiers = Map.empty \<rparr>"
  let ?m = "\<lparr> type = ''misc_feature'', location = Some (Simple 0 8),
                     qualifiers = [''note'' \<mapsto> [ascii ''random comment'']] \<rparr>"
  let ?self = "\<lparr> record_id = ''MZ242720'', sequence = ''ACGTACGT'', features = [?g, ?m] \<rparr>"
  have h: "\<forall>f\<in>set (features ?self). type f \<noteq> ''CDS''" by simp
  have ids: "segment_id ascii_tables ?g = None" "segment_id ascii_tables ?m = None"
    using search_random_comment [OF ascii_faithful_ascii_tables]
    by (simp_all add: segment_id_def first_note_def)
  have ne: "\<forall>f\<in>set (features ?self). \<not> empty_note f \<and> \<not> unlocated_segment ascii_tables f"
    by (simp add: empty_note_def unlocated_segment_def)
  have segs: "segments_of ascii_tables (features ?self) = Map.empty"
    by (intro ext) (simp add: segments_of_def ranges_of_def ids)
  note t = no_coding_feature [OF h, where sp = True and prefix = "''MZ242720''" and U = ascii_tables]
  from t have 1: "find_coding_boundaries True ?self = Inr (None, None)" by blast
  from t have 2: "save_utrs True ?self ''MZ242720'' = ([], None)" by blast
  from t ne have "get_utr_details ascii_tables True ?self =
      Inr \<lparr> utr5_length = 0, utr3_length = 0,
            segments = segments_of ascii_tables (features ?self) \<rparr>"
    by blast
  then have 3: "get_utr_details ascii_tables True ?self =
      Inr \<lparr> utr5_length = 0, utr3_length = 0, segments = Map.empty \<rparr>"
    by (simp only: segs)
  show ?thesis using 1 2 3 by blast
qed

text \<open>
  Claim C4. When the boundary is defined with global\_start = 0, the 5' UTR region is
  present with the empty sequence, and \<^verbatim>\<open>save_utrs\<close> writes its file, once; when the
  boundary is undefined no region is present and no file is written. The writer is called
  once for each present region and for nothing else. The same holds for the 3' UTR when
  global\_end is the sequence length.
\<close>

theorem empty_utr_present_and_written:
  "(find_coding_boundaries sp self = Inr (Some 0, b) \<longrightarrow>
      (\<exists>u. extract_5prime_utr sp self = Inr (Some u) \<and> seq u = [] \<and>
           filter (\<lambda>w. fst w = prefix @ ''_5UTR.fasta'') (fst (save_utrs sp self prefix)) =
             [(prefix @ ''_5UTR.fasta'', u)] \<and>
           snd (save_utrs sp self prefix) = None))
   \<and> (find_coding_boundaries sp self = Inr (a, Some (int (length (sequence self)))) \<longrightarrow>
      (\<exists>u. extract_3prime_utr sp self = Inr (Some u) \<and> seq u = [] \<and>
           filter (\<lambda>w. fst w = prefix @ ''_3UTR.fasta'') (fst (save_utrs sp self prefix)) =
             [(prefix @ ''_3UTR.fasta'', u)] \<and>
           snd (save_utrs sp self prefix) = None))
   \<and> (find_coding_boundaries sp self = Inr (None, None) \<longrightarrow>
      extract_5prime_utr sp self = Inr None \<and> extract_3prime_utr sp self = Inr None \<and>
      save_utrs sp self prefix = ([], None))
   \<and> (extract_5prime_utr sp self = Inr u5 \<and> extract_3prime_utr sp self = Inr u3 \<longrightarrow>
      save_utrs sp self prefix =
        ((case u5 of None \<Rightarrow> [] | Some u \<Rightarrow> [(prefix @ ''_5UTR.fasta'', u)])
         @ (case u3 of None \<Rightarrow> [] | Some u \<Rightarrow> [(prefix @ ''_3UTR.fasta'', u)]), None))
   \<and> (find_coding_boundaries sp self = Inl e \<longrightarrow>
      extract_5prime_utr sp self = Inl e \<and> extract_3prime_utr sp self = Inl e \<and>
      save_utrs sp self prefix = ([], Some e))"
proof -
  have five: "\<exists>u. extract_5prime_utr sp self = Inr (Some u) \<and> seq u = [] \<and>
           filter (\<lambda>w. fst w = prefix @ ''_5UTR.fasta'') (fst (save_utrs sp self prefix)) =
             [(prefix @ ''_5UTR.fasta'', u)] \<and>
           snd (save_utrs sp self prefix) = None"
    if b: "find_coding_boundaries sp self = Inr (Some 0, b)"
  proof -
    from b obtain u3 where u3: "extract_3prime_utr sp self = Inr u3"
      using extractors_return by blast
    from b have u5: "extract_5prime_utr sp self =
        Inr (Some \<lparr> seq = py_slice (sequence self) None (Some 0),
                    id_rec = record_id self @ ''_5UTR'',
                    description = ''5' UTR from '' @ record_id self \<rparr>)"
      by (rule extract_5prime_utr_cases)
    show ?thesis
      by (simp add: save_utrs_writes [OF u5 u3] u5 py_slice_to split: option.splits)
  qed
  have three: "\<exists>u. extract_3prime_utr sp self = Inr (Some u) \<and> seq u = [] \<and>
           filter (\<lambda>w. fst w = prefix @ ''_3UTR.fasta'') (fst (save_utrs sp self prefix)) =
             [(prefix @ ''_3UTR.fasta'', u)] \<and>
           snd (save_utrs sp self prefix) = None"
    if b: "find_coding_boundaries sp self = Inr (a, Some (int (length (sequence self))))"
  proof -
    from b obtain u5 where u5: "extract_5prime_utr sp self = Inr u5"
      using extractors_return by blast
    from b have u3: "extract_3prime_utr sp self =
        Inr (Some \<lparr> seq = py_slice (sequence self) (Some (int (length (sequence self)))) None,
                    id_rec = record_id self @ ''_3UTR'',
                    description = ''3' UTR from '' @ record_id self \<rparr>)"
      by (rule extract_3prime_utr_cases)
    show ?thesis
      by (simp add: save_utrs_writes [OF u5 u3] u3 py_slice_from split: option.splits)
  qed
  have none: "extract_5prime_utr sp self = Inr None \<and> extract_3prime_utr sp self = Inr None \<and>
      save_utrs sp self prefix = ([], None)"
    if b: "find_coding_boundaries sp self = Inr (None, None)"
  proof -
    have u5: "extract_5prime_utr sp self = Inr None"
      using b by (rule extract_5prime_utr_cases)
    have u3: "extract_3prime_utr sp self = Inr None"
      using b by (rule extract_3prime_utr_cases)
    show ?thesis
      by (simp add: save_utrs_writes [OF u5 u3] u5 u3)
  qed
  have writes: "save_utrs sp self prefix =
        ((case u5 of None \<Rightarrow> [] | Some u \<Rightarrow> [(prefix @ ''_5UTR.fasta'', u)])
         @ (case u3 of None \<Rightarrow> [] | Some u \<Rightarrow> [(prefix @ ''_3UTR.fasta'', u)]), None)"
    if "extract_5prime_utr sp self = Inr u5 \<and> extract_3prime_utr sp self = Inr u3"
    using that by (simp add: save_utrs_writes)
  have raises: "extract_5prime_utr sp self = Inl e \<and> extract_3prime_utr sp self = Inl e \<and>
      save_utrs sp self prefix = ([], Some e)"
    if "find_coding_boundaries sp self = Inl e"
    using that
    by (simp add: extract_5prime_utr_cases extract_3prime_utr_cases save_utrs_raises)
  show ?thesis
    using five three none writes raises by blast
qed

theorem empty_utr_present_and_written_witness:
  "save_utrs True
     \<lparr> record_id = ''MZ'', sequence = ''ATGAAATAG'',
       features = [\<lparr> type = ''CDS'', location = Some (Simple 0 9), qualifiers = Map.empty \<rparr>] \<rparr>
     ''out''
   = ([(''out_5UTR.fasta'',
        \<lparr> seq = [], id_rec = ''MZ_5UTR'', description = ''5' UTR from MZ'' \<rparr>),
       (''out_3UTR.fasta'',
        \<lparr> seq = [], id_rec = ''MZ_3UTR'', description = ''3' UTR from MZ'' \<rparr>)], None)
   \<and> save_utrs True
     \<lparr> record_id = ''MZ'', sequence = ''ATGAAATAG'',
       features = [\<lparr> type = ''gene'', location = Some (Simple 0 9), qualifiers = Map.empty \<rparr>] \<rparr>
     ''out''
   = ([], None)
   \<and> save_utrs True
     \<lparr> record_id = ''MZ'', sequence = ''ATGAAATAG'',
       features = [\<lparr> type = ''CDS'', location = None, qualifiers = Map.empty \<rparr>] \<rparr>
     ''out''
   = ([], Some AttributeError)"
proof -
  let ?a = "\<lparr> record_id = ''MZ'', sequence = ''ATGAAATAG'',
       features = [\<lparr> type = ''CDS'', location = Some (Simple 0 9), qualifiers = Map.empty \<rparr>] \<rparr>"
  let ?b = "\<lparr> record_id = ''MZ'', sequence = ''ATGAAATAG'',
       features = [\<lparr> type = ''gene'', location = Some (Simple 0 9), qualifiers = Map.empty \<rparr>] \<rparr>"
  let ?c = "\<lparr> record_id = ''MZ'', sequence = ''ATGAAATAG'',
       features = [\<lparr> type = ''CDS'', location = None, qualifiers = Map.empty \<rparr>] \<rparr>"
  have a: "find_coding_boundaries True ?a = Inr (Some 0, Some 9)"
    by (simp add: find_coding_boundaries_def bounds_via_parts_def py_min_def py_max_def)
  have b: "find_coding_boundaries True ?b = Inr (None, None)"
    by (simp add: find_coding_boundaries_def)
  have c: "find_coding_boundaries True ?c = Inl AttributeError"
    by (simp add: find_coding_boundaries_def)
  have e5: "extract_5prime_utr True ?a =
      Inr (Some \<lparr> seq = [], id_rec = ''MZ_5UTR'', description = ''5' UTR from MZ'' \<rparr>)"
    using a by (simp add: extract_5prime_utr_def py_slice_to)
  have e3: "extract_3prime_utr True ?a =
      Inr (Some \<lparr> seq = [], id_rec = ''MZ_3UTR'', description = ''3' UTR from MZ'' \<rparr>)"
    using a by (simp add: extract_3prime_utr_def py_slice_from)
  have one: "save_utrs True ?a ''out'' =
     ([(''out_5UTR.fasta'',
        \<lparr> seq = [], id_rec = ''MZ_5UTR'', description = ''5' UTR from MZ'' \<rparr>),
       (''out_3UTR.fasta'',
        \<lparr> seq = [], id_rec = ''MZ_3UTR'', description = ''3' UTR from MZ'' \<rparr>)], None)"
    using empty_utr_present_and_written
      [where sp = True and self = ?a and prefix = "''out''"
         and ?u5.0 = "Some \<lparr> seq = [], id_rec = ''MZ_5UTR'', description = ''5' UTR from MZ'' \<rparr>"
         and ?u3.0 = "Some \<lparr> seq = [], id_rec = ''MZ_3UTR'', description = ''3' UTR from MZ'' \<rparr>"]
      e5 e3
    by simp
  have two: "save_utrs True ?b ''out'' = ([], None)"
    using empty_utr_present_and_written [where sp = True and self = ?b and prefix = "''out''"] b
    by simp
  have three: "save_utrs True ?c ''out'' = ([], Some AttributeError)"
    using empty_utr_present_and_written
      [where sp = True and self = ?c and prefix = "''out''" and e = AttributeError] c
    by simp
  show ?thesis using one two three by simp
qed

text \<open>
  Claim C5, as stated, fails: \<^verbatim>\<open>find_segment_boundaries\<close> records no range for a
  \<open>misc_feature\<close> whose note matches and whose location is \<^verbatim>\<open>None\<close>, it raises
  \<^verbatim>\<open>AttributeError\<close>; and it raises \<^verbatim>\<open>IndexError\<close> on a \<open>misc_feature\<close>
  whose \<open>note\<close> list is empty.
\<close>

theorem find_segment_boundaries_raises:
  "find_segment_boundaries ascii_tables
     \<lparr> record_id = ''MZ242719'', sequence = ''ACGT'',
       features = [\<lparr> type = ''misc_feature'', location = None,
                     qualifiers = [''note'' \<mapsto> [ascii ''Locus Segment 3 protein'']] \<rparr>] \<rparr>
   = Inl AttributeError
   \<and> find_segment_boundaries ascii_tables
     \<lparr> record_id = ''MZ242719'', sequence = ''ACGT'',
       features = [\<lparr> type = ''misc_feature'', location = Some (Simple 5 40),
                     qualifiers = [''note'' \<mapsto> []] \<rparr>] \<rparr>
   = Inl IndexError"
  by (simp add: find_segment_boundaries_def ascii_tables_def ascii_def ascii_lower_def
      ascii_digit_def)

text \<open>
  Claim C5, amended. When no \<open>misc_feature\<close> has an empty \<open>note\<close> list and every
  feature with a segment identifier has a location, \<^verbatim>\<open>find_segment_boundaries\<close>
  returns the dictionary that takes a feature into account exactly when it is a
  \<open>misc_feature\<close> whose first \<open>note\<close> value, in lower case, holds \<open>locus segment\<close>, a
  space and an integer (decimal digits as \<^verbatim>\<open>\d\<close> knows them); the key is
  \<open>segment_\<close> followed by the digits of the first such match, and under each key stand the
  (start, end) pairs of its features in scan order. A note that does not match contributes
  nothing, and a malformed numeric suffix skips the feature without raising. Otherwise the
  method raises at the first feature with an empty \<open>note\<close> list (\<^verbatim>\<open>IndexError\<close>) or
  with a segment identifier and no location (\<^verbatim>\<open>AttributeError\<close>). A
  \<open>misc_feature\<close> with note \<open>Locus Segment 3 protein\<close> at [5,40), followed by one with
  note \<open>random comment\<close>, gives \<open>segment_3\<close> \<open>\<mapsto>\<close> [(5,40)] and no other key.
\<close>

theorem find_segment_boundaries_collects:
  "find_segment_boundaries U self =
     (case first_fault U (features self) of
        Some e \<Rightarrow> Inl e
      | None \<Rightarrow> Inr (segments_of U (features self)))
   \<and> ((\<forall>f\<in>set (features self). \<not> empty_note f \<and> \<not> unlocated_segment U f) \<longrightarrow>
      find_segment_boundaries U self = Inr (segments_of U (features self)))
   \<and> (first_fault U (features self) = None) =
       (\<forall>f\<in>set (features self). \<not> empty_note f \<and> \<not> unlocated_segment U f)
   \<and> (segment_id U f = Some k) =
       (type f = ''misc_feature'' \<and>
        (\<exists>v rest d. qualifiers f ''note'' = Some (v # rest) \<and>
           leftmost_match (re_digit U) (ascii ''locus segment '') (str_lower U v) d \<and>
           k = ascii ''segment_'' @ d))
   \<and> (segment_id U f = None) =
       (\<not> (type f = ''misc_feature'' \<and>
           (\<exists>v rest d. qualifiers f ''note'' = Some (v # rest) \<and>
              occurs_with_digits (re_digit U) (ascii ''locus segment '') (str_lower U v) d)))
   \<and> (ascii_faithful U \<and>
      type a = ''misc_feature'' \<and>
      qualifiers a ''note'' = Some [ascii ''Locus Segment 3 protein''] \<and>
      location a = Some (Simple 5 40) \<and>
      type b = ''misc_feature'' \<and> qualifiers b ''note'' = Some [ascii ''random comment''] \<and>
      features r = [a, b] \<longrightarrow>
      find_segment_boundaries U r = Inr [ascii ''segment_3'' \<mapsto> [(5, 40)]])
   \<and> (ascii_faithful U \<and>
      type c = ''misc_feature'' \<and> qualifiers c ''note'' = Some [ascii ''Locus Segment III''] \<and>
      features r' = [c] \<longrightarrow>
      find_segment_boundaries U r' = Inr Map.empty)"
proof -
  have good: "find_segment_boundaries U self = Inr (segments_of U (features self))"
    if "\<forall>f\<in>set (features self). \<not> empty_note f \<and> \<not> unlocated_segment U f"
  proof -
    from that have "first_fault U (features self) = None"
      by (simp add: first_fault_None_iff)
    then show ?thesis by (simp add: find_segment_boundaries_result)
  qed
  show ?thesis
    using find_segment_boundaries_result [of U self] good
      first_fault_None_iff [of U "features self"] segment_id_iff [of U f k]
      segment_id_None_iff [of U f] segments_scenario [of U a b r] segments_malformed [of U c r']
    by blast
qed

theorem find_segment_boundaries_collects_witness:
  "(\<exists>segs.
      find_segment_boundaries arabic_tables
        \<lparr> record_id = ''MZ242719'', sequence = ''ACGT'',
          features =
            [\<lparr> type = ''misc_feature'', location = Some (Simple 5 40),
               qualifiers = [''note'' \<mapsto> [ascii ''Locus Segment 3 protein'']] \<rparr>,
             \<lparr> type = ''misc_feature'', location = Some (Simple 1 2),
               qualifiers = [''note'' \<mapsto> [ascii ''random comment'']] \<rparr>,
             \<lparr> type = ''misc_feature'', location = Some (Compound (50, 60) (70, 90) []),
               qualifiers = [''note'' \<mapsto> [ascii ''part of LOCUS SEGMENT 3'']] \<rparr>,
             \<lparr> type = ''misc_feature'', location = Some (Simple 7 8),
               qualifiers = [''note'' \<mapsto> [ascii ''locus segment '' @ [1635, 1634]]] \<rparr>,
             \<lparr> type = ''misc_feature'', location = None,
               qualifiers = [''note'' \<mapsto> [ascii ''locus segment x'']] \<rparr>,
             \<lparr> type = ''CDS'', location = Some (Simple 3 4),
               qualifiers = [''note'' \<mapsto> []] \<rparr>] \<rparr>
      = Inr segs \<and>
      segs (ascii ''segment_3'') = Some [(5, 40), (50, 90)] \<and>
      segs (ascii ''segment_'' @ [1635, 1634]) = Some [(7, 8)] \<and>
      segs (ascii ''segment_'') = None)
   \<and> find_segment_boundaries ascii_tables
        \<lparr> record_id = ''MZ242719'', sequence = ''ACGT'',
          features =
            [\<lparr> type = ''misc_feature'', location = Some (Simple 5 40),
               qualifiers = [''note'' \<mapsto> [ascii ''Locus Segment 3 protein'']] \<rparr>,
             \<lparr> type = ''misc_feature'', location = Some (Simple 1 2),
               qualifiers = [''note'' \<mapsto> [ascii ''random comment'']] \<rparr>] \<rparr>
      = Inr [ascii ''segment_3'' \<mapsto> [(5, 40)]]"
proof -
  let ?f1 = "\<lparr> type = ''misc_feature'', location = Some (Simple 5 40),
               qualifiers = [''note'' \<mapsto> [ascii ''Locus Segment 3 protein'']] \<rparr>"
  let ?f2 = "\<lparr> type = ''misc_feature'', location = Some (Simple 1 2),
               qualifiers = [''note'' \<mapsto> [ascii ''random comment'']] \<rparr>"
  let ?f3 = "\<lparr> type = ''misc_feature'', location = Some (Compound (50, 60) (70, 90) []),
               qualifiers = [''note'' \<mapsto> [ascii ''part of LOCUS SEGMENT 3'']] \<rparr>"
  let ?f4 = "\<lparr> type = ''misc_feature'', location = Some (Simple 7 8),
               qualifiers = [''note'' \<mapsto> [ascii ''locus segment '' @ [1635, 1634]]] \<rparr>"
  let ?f5 = "\<lparr> type = ''misc_feature'', location = None,
               qualifiers = [''note'' \<mapsto> [ascii ''locus segment x'']] \<rparr>"
  let ?f6 = "\<lparr> type = ''CDS'', location = Some (Simple 3 4),
               qualifiers = [''note'' \<mapsto> []] \<rparr>"
  let ?fs = "[?f1, ?f2, ?f3, ?f4, ?f5, ?f6]"
  let ?r = "\<lparr> record_id = ''MZ242719'', sequence = ''ACGT'', features = ?fs \<rparr>"
  let ?r2 = "\<lparr> record_id = ''MZ242719'', sequence = ''ACGT'', features = [?f1, ?f2] \<rparr>"
  have ids: "segment_id arabic_tables ?f1 = Some (ascii ''segment_3'')"
    "segment_id arabic_tables ?f2 = None"
    "segment_id arabic_tables ?f3 = Some (ascii ''segment_3'')"
    "segment_id arabic_tables ?f4 = Some (ascii ''segment_'' @ [1635, 1634])"
    "segment_id arabic_tables ?f5 = None"
    "segment_id arabic_tables ?f6 = None"
    by (simp_all add: segment_id_def first_note_def arabic_tables_def ascii_def ascii_lower_def
        ascii_digit_def)
  have ok: "\<forall>f\<in>set (features ?r). \<not> empty_note f \<and> \<not> unlocated_segment arabic_tables f"
    by (simp add: empty_note_def unlocated_segment_def ids)
  note t = find_segment_boundaries_collects [where U = arabic_tables and self = ?r]
  from t ok have good: "find_segment_boundaries arabic_tables ?r =
      Inr (segments_of arabic_tables (features ?r))"
    by blast
  have ne: "ascii ''segment_'' @ [1635, 1634] \<noteq> ascii ''segment_3''"
    "ascii ''segment_3'' \<noteq> ascii ''segment_'' @ [1635, 1634]"
    "ascii ''segment_3'' \<noteq> ascii ''segment_''"
    "ascii ''segment_'' @ [1635, 1634] \<noteq> ascii ''segment_''"
    by (simp_all add: ascii_def)
  have k3: "segments_of arabic_tables ?fs (ascii ''segment_3'') = Some [(5, 40), (50, 90)]"
    by (simp add: segments_of_def ranges_of_def ids ne feature_range_def py_min_def py_max_def)
  have ka: "segments_of arabic_tables ?fs (ascii ''segment_'' @ [1635, 1634]) = Some [(7, 8)]"
    by (simp add: segments_of_def ranges_of_def ids ne feature_range_def)
  have k0: "segments_of arabic_tables ?fs (ascii ''segment_'') = None"
    by (simp add: segments_of_def ranges_of_def ids ne)
  have one: "\<exists>segs. find_segment_boundaries arabic_tables ?r = Inr segs \<and>
      segs (ascii ''segment_3'') = Some [(5, 40), (50, 90)] \<and>
      segs (ascii ''segment_'' @ [1635, 1634]) = Some [(7, 8)] \<and>
      segs (ascii ''segment_'') = None"
    using good k3 ka k0 by simp
  note t2 = find_segment_boundaries_collects
    [where U = ascii_tables and r = ?r2 and a = ?f1 and b = ?f2 and self = ?r2 and f = ?f1
       and k = "[]" and c = ?f2 and r' = ?r2]
  have hyp: "ascii_faithful ascii_tables \<and>
      type ?f1 = ''misc_feature'' \<and>
      qualifiers ?f1 ''note'' = Some [ascii ''Locus Segment 3 protein''] \<and>
      location ?f1 = Some (Simple 5 40) \<and>
      type ?f2 = ''misc_feature'' \<and> qualifiers ?f2 ''note'' = Some [ascii ''random comment''] \<and>
      features ?r2 = [?f1, ?f2]"
    by (simp add: ascii_faithful_ascii_tables)
  from t2 hyp
  have two: "find_segment_boundaries ascii_tables ?r2 = Inr [ascii ''segment_3'' \<mapsto> [(5, 40)]]"
    by blast
  show ?thesis using one two by blast
qed

text \<open>
  Claim C6. With a defined boundary (global\_start, global\_end) such that
  0 \<open>\<le>\<close> global\_start \<open>\<le>\<close> global\_end \<open>\<le>\<close> sequence length, the 5' UTR, the coding span
  \<^verbatim>\<open>sequence[global_start:global_end]\<close> and the 3' UTR, concatenated, are the sequence.
\<close>

theorem utr_roundtrip:
  assumes "find_coding_boundaries sp self = Inr (Some gs, Some ge)"
    and "0 \<le> gs" and "gs \<le> ge" and "ge \<le> int (length (sequence self))"
  shows "\<exists>u5 u3. extract_5prime_utr sp self = Inr (Some u5) \<and>
           extract_3prime_utr sp self = Inr (Some u3) \<and>
           seq u5 @ py_slice (sequence self) (Some gs) (Some ge) @ seq u3 = sequence self"
proof -
  have "0 \<le> ge" using assms by linarith
  moreover have "nat gs \<le> nat ge" using assms by linarith
  ultimately show ?thesis
    using assms
    by (simp add: extract_5prime_utr_cases extract_3prime_utr_cases py_slice_to py_slice_from
        py_slice_between take_mid_drop)
qed

theorem utr_roundtrip_witness:
  "\<exists>u5 u3.
     extract_5prime_utr True
       \<lparr> record_id = ''X'', sequence = ''AAATGCCCTAAGG'',
         features = [\<lparr> type = ''CDS'', location = Some (Simple 2 11),
                       qualifiers = Map.empty \<rparr>] \<rparr>
       = Inr (Some u5) \<and>
     extract_3prime_utr True
       \<lparr> record_id = ''X'', sequence = ''AAATGCCCTAAGG'',
         features = [\<lparr> type = ''CDS'', location = Some (Simple 2 11),
                       qualifiers = Map.empty \<rparr>] \<rparr>
       = Inr (Some u3) \<and>
     seq u5 @ py_slice ''AAATGCCCTAAGG'' (Some 2) (Some 11) @ seq u3 = ''AAATGCCCTAAGG''"
proof -
  let ?self = "\<lparr> record_id = ''X'', sequence = ''AAATGCCCTAAGG'',
         features = [\<lparr> type = ''CDS'', location = Some (Simple 2 11),
                       qualifiers = Map.empty \<rparr>] \<rparr>"
  have b: "find_coding_boundaries True ?self = Inr (Some 2, Some 11)"
    by (simp add: find_coding_boundaries_def bounds_via_parts_def py_min_def py_max_def)
  show ?thesis
    using utr_roundtrip [OF b] by simp
qed

text \<open>
  Claim C8, as stated, fails: on a feature list with a CDS feature whose location is
  \<^verbatim>\<open>None\<close>, \<^verbatim>\<open>find_coding_boundaries\<close> returns no pair, it raises
  \<^verbatim>\<open>AttributeError\<close>.
\<close>

theorem find_coding_boundaries_raises:
  "find_coding_boundaries True
     \<lparr> record_id = ''MZ242719'', sequence = ''ACGT'',
       features = [\<lparr> type = ''CDS'', location = None, qualifiers = Map.empty \<rparr>] \<rparr>
   = Inl AttributeError"
  by (simp add: find_coding_boundaries_def)

text \<open>
  Claim C8, amended. \<^verbatim>\<open>find_coding_boundaries\<close> has three outcomes: it raises
  \<^verbatim>\<open>AttributeError\<close>, exactly when some CDS feature has no location; it returns
  \<^verbatim>\<open>(None, None)\<close>, exactly when the list has no CDS feature; it returns a pair of two
  integers, exactly when the list has a CDS feature and every CDS feature has a location.
  It never returns a pair with exactly one component defined, and raises nothing else.
\<close>

theorem find_coding_boundaries_outcomes:
  "(find_coding_boundaries sp self = Inl AttributeError) =
     (\<exists>f\<in>set (features self). unlocated_cds f)
   \<and> (find_coding_boundaries sp self = Inr (None, None)) =
     (\<forall>f\<in>set (features self). type f \<noteq> ''CDS'')
   \<and> (\<exists>a b. find_coding_boundaries sp self = Inr (Some a, Some b)) =
     ((\<exists>f\<in>set (features self). type f = ''CDS'') \<and>
      (\<forall>f\<in>set (features self). \<not> unlocated_cds f))
   \<and> find_coding_boundaries sp self \<noteq> Inr (Some a, None)
   \<and> find_coding_boundaries sp self \<noteq> Inr (None, Some b)
   \<and> find_coding_boundaries sp self \<noteq> Inl IndexError"
proof -
  have nocds: "(coding_features (features self) = []) =
      (\<forall>f\<in>set (features self). type f \<noteq> ''CDS'')"
    by (rule coding_features_empty)
  have sub: "(\<forall>f\<in>set (features self). type f \<noteq> ''CDS'') \<Longrightarrow>
      \<not> (\<exists>f\<in>set (features self). unlocated_cds f)"
    by (auto simp: unlocated_cds_def)
  show ?thesis
    using sub by (auto simp: find_coding_boundaries_cases nocds)
qed

theorem find_coding_boundaries_outcomes_witness:
  "find_coding_boundaries False
     \<lparr> record_id = ''MZ242719'', sequence = ''ACGT'',
       features = [\<lparr> type = ''gene'', location = None, qualifiers = Map.empty \<rparr>] \<rparr>
     = Inr (None, None)
   \<and> find_coding_boundaries False
     \<lparr> record_id = ''MZ242719'', sequence = ''ACGT'',
       features = [\<lparr> type = ''CDS'', location = Some (Simple 1 2), qualifiers = Map.empty \<rparr>,
                   \<lparr> type = ''CDS'', location = None, qualifiers = Map.empty \<rparr>] \<rparr>
     = Inl AttributeError"
proof -
  let ?a = "\<lparr> record_id = ''MZ242719'', sequence = ''ACGT'',
       features = [\<lparr> type = ''gene'', location = None, qualifiers = Map.empty \<rparr>] \<rparr>"
  let ?b = "\<lparr> record_id = ''MZ242719'', sequence = ''ACGT'',
       features = [\<lparr> type = ''CDS'', location = Some (Simple 1 2), qualifiers = Map.empty \<rparr>,
                   \<lparr> type = ''CDS'', location = None, qualifiers = Map.empty \<rparr>] \<rparr>"
  have one: "find_coding_boundaries False ?a = Inr (None, None)"
    using find_coding_boundaries_outcomes [where self = ?a and sp = False] by simp
  have two: "find_coding_boundaries False ?b = Inl AttributeError"
    using find_coding_boundaries_outcomes [where self = ?b and sp = False]
    by (simp add: unlocated_cds_def)
  show ?thesis using one two by simp
qed

text \<open>
  Claim C9. On a simple location the branch through \<^verbatim>\<open>parts\<close>, whose list is the
  one-element list of the location itself, gives the same pair as the branch that reads
  \<^verbatim>\<open>start\<close> and \<^verbatim>\<open>end\<close>; so the result of
  \<^verbatim>\<open>find_coding_boundaries\<close> is the same whichever branch simple locations take.
\<close>

theorem simple_location_branches_agree:
  "parts (Simple s e) = [(s, e)]
   \<and> bounds_via_parts (Simple s e) = bounds_direct (Simple s e)
   \<and> bounds_direct (Simple s e) = (s, e)
   \<and> find_coding_boundaries True self = find_coding_boundaries False self"
  by (simp add: bounds_via_parts_def bounds_direct_def find_coding_boundaries_cases)

theorem simple_location_branches_agree_witness:
  "find_coding_boundaries True
     \<lparr> record_id = ''X'', sequence = ''ACGT'',
       features = [\<lparr> type = ''CDS'', location = Some (Simple 1 3), qualifiers = Map.empty \<rparr>] \<rparr>
   = Inr (Some 1, Some 3)
   \<and> find_coding_boundaries False
     \<lparr> record_id = ''X'', sequence = ''ACGT'',
       features = [\<lparr> type = ''CDS'', location = Some (Simple 1 3), qualifiers = Map.empty \<rparr>] \<rparr>
   = Inr (Some 1, Some 3)"
proof -
  let ?self = "\<lparr> record_id = ''X'', sequence = ''ACGT'',
       features = [\<lparr> type = ''CDS'', location = Some (Simple 1 3), qualifiers = Map.empty \<rparr>] \<rparr>"
  have "find_coding_boundaries False ?self = Inr (Some 1, Some 3)"
    by (simp add: find_coding_boundaries_def bounds_direct_def py_min_def py_max_def)
  then show ?thesis
    using simple_location_branches_agree [where self = ?self] by simp
qed

text \<open>
  Claim C10. With a defined boundary that is not negative, the extractors return a region
  (slicing clamps and never raises), also when the boundary exceeds the sequence length:
  the 5' UTR has length min(global\_start, n) and the 3' UTR has length
  n - min(global\_end, n), for a sequence of length n.
\<close>

theorem utr_lengths_clamped:
  "(find_coding_boundaries sp self = Inr (Some gs, b) \<and> 0 \<le> gs \<longrightarrow>
      (\<exists>u. extract_5prime_utr sp self = Inr (Some u) \<and>
           int (length (seq u)) = min gs (int (length (sequence self)))))
   \<and> (find_coding_boundaries sp self = Inr (a, Some ge) \<and> 0 \<le> ge \<longrightarrow>
      (\<exists>u. extract_3prime_utr sp self = Inr (Some u) \<and>
           int (length (seq u)) =
             int (length (sequence self)) - min ge (int (length (sequence self)))))"
  by (simp add: extract_5prime_utr_cases extract_3prime_utr_cases length_py_slice_to
      length_py_slice_from)

theorem utr_lengths_clamped_witness:
  "(\<exists>u. extract_5prime_utr True
          \<lparr> record_id = ''X'', sequence = ''ACGT'',
            features = [\<lparr> type = ''CDS'', location = Some (Simple 6 9),
                          qualifiers = Map.empty \<rparr>] \<rparr>
        = Inr (Some u) \<and> int (length (seq u)) = 4)
   \<and> (\<exists>u. extract_3prime_utr True
          \<lparr> record_id = ''X'', sequence = ''ACGT'',
            features = [\<lparr> type = ''CDS'', location = Some (Simple 6 9),
                          qualifiers = Map.empty \<rparr>] \<rparr>
        = Inr (Some u) \<and> int (length (seq u)) = 0)"
proof -
  let ?self = "\<lparr> record_id = ''X'', sequence = ''ACGT'',
            features = [\<lparr> type = ''CDS'', location = Some (Simple 6 9),
                          qualifiers = Map.empty \<rparr>] \<rparr>"
  have b: "find_coding_boundaries True ?self = Inr (Some 6, Some 9)"
    by (simp add: find_coding_boundaries_def bounds_via_parts_def py_min_def py_max_def)
  show ?thesis
    using utr_lengths_clamped
      [where sp = True and self = ?self and gs = 6 and ge = 9 and a = "Some 6" and b = "Some 9"] b
    by simp
qed

end
